theory Spec2Isabelle
  imports Complex_Main "HOL-Library.Word" "HOL-Library.Log_Nat"
begin

section \<open>Auto Invert Bright Images: the content script\<close>

text \<open>
  A shallow embedding of \<^verbatim>\<open>src/extension/content.js\<close>. The pure functions
  (\<^verbatim>\<open>shouldInvert\<close>, the loop of \<^verbatim>\<open>invertImage\<close>) are HOL functions over the
  byte array; \<^verbatim>\<open>processImage\<close>, \<^verbatim>\<open>applyCssFallback\<close> and \<^verbatim>\<open>scanImages\<close> pass the
  image element explicitly and return it updated, together with the trace of the
  actions they performed (DOM writes, canvas calls, console output, calls of the
  script's own functions).
\<close>

subsection \<open>JavaScript numbers and typed arrays\<close>

text \<open>
  A JavaScript number is an IEEE 754 double. The numbers of this script are never
  negative: bytes, sums of three bytes and two counters, which are integers below
  \<open>2 ^ 53\<close> and exact as doubles, the literals \<^verbatim>\<open>200\<close> and \<^verbatim>\<open>0.6\<close>, and the results
  of two divisions of one such integer by another. A finite number is modelled by the
  rational it denotes, and a division rounds: \<open>ieee_div n d\<close> is the double nearest to
  \<open>n / d\<close>, with 53 significant bits and ties going to the even significand. The
  exponent range of doubles is not modelled; the quotients taken here are 0 or lie
  between \<open>2 ^ - 53\<close> and 255.
\<close>

text \<open>The exponent \<open>e\<close> of a positive quotient: \<open>2 ^ e \<le> n / d < 2 ^ (e + 1)\<close>.\<close>

definition binade :: "nat \<Rightarrow> nat \<Rightarrow> int" where
  "binade n d =
     (let e0 = bitlen (int n) - bitlen (int d)
      in if (2 powi e0) * (of_nat d :: rat) \<le> of_nat n then e0 else e0 - 1)"

definition round_half_even :: "rat \<Rightarrow> int" where
  "round_half_even y =
     (let f = \<lfloor>y\<rfloor>; r = y - of_int f
      in if r < 1 / 2 then f
         else if 1 / 2 < r then f + 1
         else if even f then f else f + 1)"

definition ieee_div :: "nat \<Rightarrow> nat \<Rightarrow> rat" where
  "ieee_div n d =
     (if n = 0 then 0
      else let ulp = 2 powi (binade n d - 52)
           in of_int (round_half_even (of_nat n / of_nat d / ulp)) * ulp)"

text \<open>
  The two special values a division can produce here: \<^verbatim>\<open>0 / 0\<close> is \<open>NaN\<close>, and
  \<^verbatim>\<open>x / 0\<close> for a positive \<open>x\<close> is \<open>Infinity\<close>. A comparison with \<open>NaN\<close> is false.
\<close>

datatype jsnum = NaN | PosInf | Num rat

text \<open>\<^verbatim>\<open>a / b\<close> for two non-negative integers.\<close>

definition js_div :: "nat \<Rightarrow> nat \<Rightarrow> jsnum" where
  "js_div a b =
     (if b = 0 then (if a = 0 then NaN else PosInf)
      else Num (ieee_div a b))"

text \<open>\<^verbatim>\<open>x > c\<close> for a finite \<open>c\<close>.\<close>

fun js_gt :: "jsnum \<Rightarrow> rat \<Rightarrow> bool" where
  "js_gt NaN c = False"
| "js_gt PosInf c = True"
| "js_gt (Num q) c = (c < q)"

type_synonym u8 = "8 word"

text \<open>
  \<^verbatim>\<open>data[i]\<close> on a \<^verbatim>\<open>Uint8ClampedArray\<close>: the byte as a number, or
  \<^verbatim>\<open>undefined\<close> (\<open>None\<close>) beyond the end.
\<close>

definition typed_get :: "u8 list \<Rightarrow> nat \<Rightarrow> nat option" where
  "typed_get data i = (if i < length data then Some (unat (data ! i)) else None)"

text \<open>
  The conversion a \<^verbatim>\<open>Uint8ClampedArray\<close> applies to an integer it stores: values
  below 0 become 0, values above 255 become 255.
\<close>

definition clamp_u8 :: "int \<Rightarrow> u8" where
  "clamp_u8 x = (if x < 0 then 0 else if 255 < x then 255 else word_of_int x)"

text \<open>
  \<^verbatim>\<open>d[i] = 255 - d[i]\<close>. Beyond the end the read is \<^verbatim>\<open>undefined\<close> and the
  write to the same index is ignored, so the array is unchanged.
\<close>

definition invert_at :: "u8 list \<Rightarrow> nat \<Rightarrow> u8 list" where
  "invert_at d i =
     (case typed_get d i of
        None \<Rightarrow> d
      | Some v \<Rightarrow> d[i := clamp_u8 (255 - int v)])"

subsection \<open>Detection heuristics: \<^verbatim>\<open>shouldInvert\<close>\<close>

text \<open>
  \<^verbatim>\<open>(r + g + b) / 3\<close> for the pixel at byte offset \<open>i\<close>. An \<^verbatim>\<open>undefined\<close>
  operand makes the sum, and so the quotient, \<open>NaN\<close>.
\<close>

definition brightness :: "u8 list \<Rightarrow> nat \<Rightarrow> jsnum" where
  "brightness data i =
     (case (typed_get data i, typed_get data (i + 1), typed_get data (i + 2)) of
        (Some r, Some g, Some b) \<Rightarrow> js_div (r + g + b) 3
      | _ \<Rightarrow> NaN)"

text \<open>
  The loop \<^verbatim>\<open>for (let i = 0; i < data.length; i += 20)\<close> with its two counters
  \<open>(brightPixels, samples)\<close>.
\<close>

function shouldInvert_loop :: "u8 list \<Rightarrow> nat \<Rightarrow> nat \<times> nat \<Rightarrow> nat \<times> nat" where
  "shouldInvert_loop data i (brightPixels, samples) =
     (if i < length data then
        shouldInvert_loop data (i + 20)
          (if js_gt (brightness data i) 200 then brightPixels + 1 else brightPixels,
           samples + 1)
      else (brightPixels, samples))"
  by pat_completeness auto
termination
  by (relation "measure (\<lambda>(data, i, c). length data - i)") auto

text \<open>The literal \<^verbatim>\<open>0.6\<close> denotes the double nearest to \<open>6 / 10\<close>.\<close>

definition shouldInvert :: "u8 list \<Rightarrow> bool" where
  "shouldInvert data =
     (case shouldInvert_loop data 0 (0, 0) of
        (brightPixels, samples) \<Rightarrow> js_gt (js_div brightPixels samples) (ieee_div 6 10))"

subsection \<open>Pixel inversion: the loop of \<^verbatim>\<open>invertImage\<close>\<close>

text \<open>
  \<^verbatim>\<open>for (let i = 0; i < d.length; i += 4)\<close>, inverting the bytes at \<open>i\<close>, \<open>i + 1\<close>
  and \<open>i + 2\<close> in this order and leaving \<open>i + 3\<close> alone.
\<close>

function invert_loop :: "u8 list \<Rightarrow> nat \<Rightarrow> u8 list" where
  "invert_loop d i =
     (if i < length d then
        invert_loop (invert_at (invert_at (invert_at d i) (i + 1)) (i + 2)) (i + 4)
      else d)"
  by pat_completeness auto
termination
  by (relation "measure (\<lambda>(d, i). length d - i)")
    (auto simp: invert_at_def split: option.splits)

subsection \<open>The page: image elements, the browser, the trace\<close>

text \<open>
  An \<^verbatim>\<open><img>\<close> element, with the attributes the script reads or writes.
  \<open>dataset_processed\<close> is \<^verbatim>\<open>img.dataset.processed\<close> (absent: \<open>None\<close>);
  \<open>style\<close> is the inline style declaration, a map from property names to the value
  and its priority; \<open>onload\<close> says that the handler \<^verbatim>\<open>() => processImage(img)\<close>
  is installed.
\<close>

record img =
  dataset_processed :: "string option"
  naturalWidth :: nat
  naturalHeight :: nat
  src :: string
  complete :: bool
  onload :: bool
  style :: "string \<rightharpoonup> string \<times> string"

text \<open>The offscreen canvas: its size and its RGBA bitmap.\<close>

record canvas =
  canvas_width :: nat
  canvas_height :: nat
  bitmap :: "u8 list"

text \<open>
  What the browser answers during one call of \<^verbatim>\<open>processImage\<close>:
  whether \<^verbatim>\<open>canvas.getContext("2d", ...)\<close> is \<^verbatim>\<open>null\<close>, whether
  \<^verbatim>\<open>ctx.drawImage\<close> and \<^verbatim>\<open>ctx.getImageData\<close> throw, the RGBA bytes the image
  has once drawn at its natural size, and the encoder \<^verbatim>\<open>canvas.toDataURL()\<close>.
\<close>

record browser =
  getContext_null :: bool
  drawImage_throws :: bool
  getImageData_throws :: bool
  pixels :: "u8 list"
  toDataURL :: "canvas \<Rightarrow> string"

text \<open>
  The actions of the script, in the order it performs them: writes to the element,
  calls of the canvas API, console output, and calls of the script's own
  \<^verbatim>\<open>shouldInvert\<close>, \<^verbatim>\<open>invertImage\<close> and \<^verbatim>\<open>applyCssFallback\<close>.
\<close>

datatype event =
    Set_processed
  | Console_log "string list"
  | CreateCanvas
  | GetContext
  | Set_canvas_size nat nat
  | DrawImage
  | GetImageData
  | Call_shouldInvert "u8 list"
  | Call_invertImage
  | PutImageData "u8 list"
  | ToDataURL
  | Set_src string
  | Call_applyCssFallback
  | Set_style string string string
  | Set_onload

definition DEBUG :: bool where
  "DEBUG = True"

definition log :: "string list \<Rightarrow> event list" where
  "log args = (if DEBUG then [Console_log (''[AutoInvert]'' # args)] else [])"

subsection \<open>Strings: \<^verbatim>\<open>toLowerCase\<close> and \<^verbatim>\<open>endsWith\<close>\<close>

text \<open>
  A source locator is a list of characters. \<^verbatim>\<open>toLowerCase\<close> maps the letters
  \<open>A\<close> to \<open>Z\<close> to \<open>a\<close> to \<open>z\<close> and leaves every other character of a
  serialised URL as it is.
\<close>

definition toLowerCase_char :: "char \<Rightarrow> char" where
  "toLowerCase_char c =
     (let n = (of_char c :: nat) in if 65 \<le> n \<and> n \<le> 90 then char_of (n + 32) else c)"

definition toLowerCase :: "string \<Rightarrow> string" where
  "toLowerCase s = map toLowerCase_char s"

definition endsWith :: "string \<Rightarrow> string \<Rightarrow> bool" where
  "endsWith s suffix_str =
     (length suffix_str \<le> length s \<and> drop (length s - length suffix_str) s = suffix_str)"

subsection \<open>CSS fallback\<close>

definition applyCssFallback :: "img \<Rightarrow> img \<times> event list" where
  "applyCssFallback img =
     (let img1 = img\<lparr>style := (style img)(''filter'' \<mapsto>
            (''invert(1) hue-rotate(180deg) brightness(1.1) contrast(1.1)'', ''important''))\<rparr>;
          img2 = img1\<lparr>style := (style img1)(''background-color'' \<mapsto> (''black'', ''''))\<rparr>
      in (img2,
          [Set_style ''filter''
             ''invert(1) hue-rotate(180deg) brightness(1.1) contrast(1.1)'' ''important'',
           Set_style ''background-color'' ''black'' '''']
          @ log [''CSS fallback applied:'', src img2]))"

subsection \<open>Pixel inversion on the canvas\<close>

text \<open>
  \<^verbatim>\<open>invertImage(ctx, imageData)\<close>: the loop over \<^verbatim>\<open>imageData.data\<close>, then
  \<^verbatim>\<open>ctx.putImageData(imageData, 0, 0)\<close>, which stores the bytes in the canvas.
\<close>

definition invertImage :: "canvas \<Rightarrow> u8 list \<Rightarrow> canvas \<times> u8 list \<times> event list" where
  "invertImage cv d0 =
     (let d = invert_loop d0 0
      in (cv\<lparr>bitmap := d\<rparr>, d, [PutImageData d]))"

subsection \<open>Image processing entry point\<close>

definition processImage :: "browser \<Rightarrow> img \<Rightarrow> img \<times> event list" where
  "processImage B img0 =
     (let img = img0\<lparr>dataset_processed := Some ''true''\<rparr>;
          t0 = [Set_processed];
          width = naturalWidth img;
          height = naturalHeight img
      in
      if width < 120 \<or> height < 120 then
        (img, t0 @ log [''Skipping small image:'', src img])
      else if endsWith (toLowerCase (src img)) ''.gif'' then
        (img, t0 @ log [''Skipping GIF:'', src img])
      else
        let t1 = t0 @ [CreateCanvas, GetContext] in
        if getContext_null B then (img, t1)
        else
          let cv0 = \<lparr>canvas_width = width, canvas_height = height,
                     bitmap = replicate (4 * width * height) 0\<rparr>;
              t2 = t1 @ [Set_canvas_size width height, DrawImage]
          in
          if drawImage_throws B then
            (case applyCssFallback img of
               (img', tf) \<Rightarrow>
                 (img', t2 @ log [''Canvas draw blocked (CORS), using CSS fallback:'', src img]
                        @ [Call_applyCssFallback] @ tf))
          else
            let cv1 = cv0\<lparr>bitmap := pixels B\<rparr>;
                t3 = t2 @ [GetImageData]
            in
            if getImageData_throws B then
              (case applyCssFallback img of
                 (img', tf) \<Rightarrow>
                   (img', t3 @ log [''Canvas read blocked (tainted), using CSS fallback:'', src img]
                          @ [Call_applyCssFallback] @ tf))
            else
              let imageData = bitmap cv1;
                  t4 = t3 @ [Call_shouldInvert imageData]
              in
              if \<not> shouldInvert imageData then
                (img, t4 @ log [''Image does not meet inversion criteria:'', src img])
              else
                (case invertImage cv1 imageData of
                   (cv2, inverted, ti) \<Rightarrow>
                     let url = toDataURL B cv2;
                         img' = img\<lparr>src := url\<rparr>
                     in (img', t4 @ [Call_invertImage] @ ti @ [ToDataURL, Set_src url]
                               @ log [''Image inverted via canvas:'', src img'])))"

subsection \<open>Image scanning\<close>

text \<open>
  The callback of \<^verbatim>\<open>images.forEach\<close>. The browser's answers are given per source
  locator of the image being processed.
\<close>

definition scanImage :: "(string \<Rightarrow> browser) \<Rightarrow> img \<Rightarrow> img \<times> event list" where
  "scanImage B img =
     (if dataset_processed img = Some ''true'' then (img, [])
      else if complete img then processImage (B (src img)) img
      else (img\<lparr>onload := True\<rparr>, [Set_onload]))"

fun scanImages :: "(string \<Rightarrow> browser) \<Rightarrow> img list \<Rightarrow> img list \<times> event list" where
  "scanImages B [] = ([], [])"
| "scanImages B (img # images) =
     (case scanImage B img of
        (img', t) \<Rightarrow>
          (case scanImages B images of
             (images', t') \<Rightarrow> (img' # images', t @ t')))"

section \<open>The specification's vocabulary\<close>

text \<open>
  The definitions of this section follow the words of the specification, not the
  code: a buffer of \<open>N\<close> pixels is laid out as \<open>4 * N\<close> bytes, pixel \<open>p\<close> occupying
  the bytes \<open>4 * p\<close> (red), \<open>4 * p + 1\<close> (green), \<open>4 * p + 2\<close> (blue) and
  \<open>4 * p + 3\<close> (alpha). The classifier samples every 5th pixel; a pixel is bright
  when the mean of its red, green and blue values exceeds 200.
\<close>

definition spec_sampled :: "nat \<Rightarrow> nat list" where
  "spec_sampled N = filter (\<lambda>p. 5 dvd p) [0..<N]"

definition spec_mean :: "u8 list \<Rightarrow> nat \<Rightarrow> rat" where
  "spec_mean data p =
     of_nat (unat (data ! (4 * p)) + unat (data ! (4 * p + 1)) + unat (data ! (4 * p + 2))) / 3"

definition spec_bright :: "u8 list \<Rightarrow> nat \<Rightarrow> bool" where
  "spec_bright data p = (200 < spec_mean data p)"

definition spec_bright_count :: "u8 list \<Rightarrow> nat \<Rightarrow> nat" where
  "spec_bright_count data N = length (filter (spec_bright data) (spec_sampled N))"

text \<open>
  The source locator ends in the extension \<^verbatim>\<open>.gif\<close>, letters compared without
  regard to case.
\<close>

definition spec_gif_extension :: "string \<Rightarrow> bool" where
  "spec_gif_extension s =
     (case rev s of
        c3 # c2 # c1 # c0 # _ \<Rightarrow>
          c0 = CHR ''.'' \<and> (c1 = CHR ''g'' \<or> c1 = CHR ''G'')
          \<and> (c2 = CHR ''i'' \<or> c2 = CHR ''I'') \<and> (c3 = CHR ''f'' \<or> c3 = CHR ''F'')
      | _ \<Rightarrow> False)"

section \<open>Properties of the model\<close>

declare shouldInvert_loop.simps [simp del]

declare invert_loop.simps [simp del]

subsection \<open>Rounding\<close>

text \<open>
  \<open>ieee_div\<close> rounds to a double: the exponent is the one of the quotient, the
  result is within half a unit in the last place, and two fractions of the same value
  round alike. The relative error is at most \<open>2 ^ - 53\<close>, which is too small to move a
  quotient of three bytes across 200, or a quotient of the two counters across the
  double \<^verbatim>\<open>0.6\<close>, for an array of fewer than \<open>2 ^ 53\<close> bytes.
\<close>

lemma round_half_even_error: "\<bar>of_int (round_half_even y) - y\<bar> \<le> 1 / 2"
proof -
  have "of_int \<lfloor>y\<rfloor> \<le> y" "y < of_int \<lfloor>y\<rfloor> + 1" by linarith+
  then show ?thesis
    by (auto simp: round_half_even_def Let_def abs_le_iff)
qed

lemma binade_bounds:
  assumes "0 < n" and "0 < d"
  shows "2 powi (binade n d) \<le> (of_nat n / of_nat d :: rat)"
    and "(of_nat n / of_nat d :: rat) < 2 powi (binade n d + 1)"
proof -
  define a where "a = bitlen (int n)"
  define c where "c = bitlen (int d)"
  have a1: "1 \<le> a" and c1: "1 \<le> c"
    using assms by (simp_all add: a_def c_def bitlen_alt_def)
  have bn: "2 ^ nat (a - 1) \<le> int n" "int n < 2 ^ nat a"
    using bitlen_bounds[of "int n"] assms by (simp_all add: a_def)
  have bd: "2 ^ nat (c - 1) \<le> int d" "int d < 2 ^ nat c"
    using bitlen_bounds[of "int d"] assms by (simp_all add: c_def)
  have n_lo: "(2::rat) powi (a - 1) \<le> of_nat n"
  proof -
    have "(of_int (2 ^ nat (a - 1)) :: rat) \<le> of_int (int n)" using bn(1) by (simp only: of_int_le_iff)
    then show ?thesis using a1 by (simp add: power_int_def)
  qed
  have n_hi: "(of_nat n :: rat) < 2 powi a"
  proof -
    have "(of_int (int n) :: rat) < of_int (2 ^ nat a)" using bn(2) by (simp only: of_int_less_iff)
    then show ?thesis using a1 by (simp add: power_int_def)
  qed
  have d_lo: "(2::rat) powi (c - 1) \<le> of_nat d"
  proof -
    have "(of_int (2 ^ nat (c - 1)) :: rat) \<le> of_int (int d)" using bd(1) by (simp only: of_int_le_iff)
    then show ?thesis using c1 by (simp add: power_int_def)
  qed
  have d_hi: "(of_nat d :: rat) < 2 powi c"
  proof -
    have "(of_int (int d) :: rat) < of_int (2 ^ nat c)" using bd(2) by (simp only: of_int_less_iff)
    then show ?thesis using c1 by (simp add: power_int_def)
  qed
  have dpos: "(0::rat) < of_nat d" using assms by simp
  have lo': "(2::rat) powi (a - c - 1) * of_nat d \<le> of_nat n"
  proof -
    have "(2::rat) powi (a - c - 1) * of_nat d \<le> 2 powi (a - c - 1) * 2 powi c"
      using d_hi by (intro mult_left_mono) simp_all
    also have "\<dots> = 2 powi (a - 1)"
      by (simp add: power_int_add [symmetric])
    finally show ?thesis using n_lo by simp
  qed
  have hi': "(of_nat n :: rat) < 2 powi (a - c + 1) * of_nat d"
  proof -
    have "(of_nat n :: rat) < 2 powi a" by (rule n_hi)
    also have "\<dots> = 2 powi (a - c + 1) * 2 powi (c - 1)"
      by (simp add: power_int_add [symmetric])
    also have "\<dots> \<le> 2 powi (a - c + 1) * of_nat d"
      using d_lo by (intro mult_left_mono) simp_all
    finally show ?thesis .
  qed
  have two: "(2::rat) powi (a - c) = 2 powi (a - c - 1 + 1)" by simp
  show "2 powi (binade n d) \<le> (of_nat n / of_nat d :: rat)"
    using lo' dpos
    by (auto simp: binade_def Let_def a_def [symmetric] c_def [symmetric] pos_le_divide_eq)
  show "(of_nat n / of_nat d :: rat) < 2 powi (binade n d + 1)"
    using hi' dpos
    by (auto simp: binade_def Let_def a_def [symmetric] c_def [symmetric] pos_divide_less_eq not_le)
qed

lemma ieee_div_error:
  assumes "0 < d"
  shows "\<bar>ieee_div n d - of_nat n / of_nat d\<bar> \<le> (of_nat n / of_nat d) / 2 ^ 53"
proof (cases "n = 0")
  case True
  then show ?thesis by (simp add: ieee_div_def)
next
  case False
  then have n: "0 < n" by simp
  define q :: rat where "q = of_nat n / of_nat d"
  define e where "e = binade n d"
  define ulp :: rat where "ulp = 2 powi (e - 52)"
  have upos: "0 < ulp" by (simp add: ulp_def)
  have fl: "ieee_div n d = of_int (round_half_even (q / ulp)) * ulp"
    using False by (simp add: ieee_div_def Let_def q_def ulp_def e_def)
  have "\<bar>of_int (round_half_even (q / ulp)) - q / ulp\<bar> \<le> 1 / 2"
    by (rule round_half_even_error)
  then have "\<bar>of_int (round_half_even (q / ulp)) - q / ulp\<bar> * ulp \<le> 1 / 2 * ulp"
    using upos by (intro mult_right_mono) simp_all
  moreover have "\<bar>of_int (round_half_even (q / ulp)) - q / ulp\<bar> * ulp
        = \<bar>of_int (round_half_even (q / ulp)) * ulp - q\<bar>"
  proof -
    have "\<bar>of_int (round_half_even (q / ulp)) - q / ulp\<bar> * ulp
          = \<bar>(of_int (round_half_even (q / ulp)) - q / ulp) * ulp\<bar>"
      using upos by (simp add: abs_mult)
    also have "(of_int (round_half_even (q / ulp)) - q / ulp) * ulp
          = of_int (round_half_even (q / ulp)) * ulp - q"
      using upos by (simp add: field_simps)
    finally show ?thesis .
  qed
  ultimately have err: "\<bar>ieee_div n d - q\<bar> \<le> ulp / 2" by (simp add: fl)
  have "ulp / 2 = 2 powi e / 2 ^ 53"
  proof -
    have "(2::rat) powi (e - 52 + 52) = 2 powi (e - 52) * 2 powi 52"
      by (rule power_int_add) simp
    then have "(2::rat) powi e = 2 powi (e - 52) * 2 ^ 52"
      by simp
    then show ?thesis by (simp add: ulp_def)
  qed
  also have "\<dots> \<le> q / 2 ^ 53"
    using binade_bounds(1)[OF n assms] by (simp add: q_def e_def divide_right_mono)
  finally show ?thesis using err by (simp add: q_def)
qed

lemma ieee_div_200: "ieee_div 600 3 = 200"
  by code_simp

lemma ieee_div_literals:
  "ieee_div 6 10 = 5404319552844595 / 2 ^ 53" "ieee_div 1 3 = 6004799503160661 / 2 ^ 54"
  by code_simp+

lemma ieee_div_bounds:
  assumes "0 < d"
  shows "of_nat n / of_nat d - (of_nat n / of_nat d) / 2 ^ 53 \<le> ieee_div n d"
    and "ieee_div n d \<le> of_nat n / of_nat d + (of_nat n / of_nat d) / 2 ^ 53"
proof -
  define q :: rat where "q = of_nat n / of_nat d"
  define E :: rat where "E = q / 2 ^ 53"
  have "\<bar>ieee_div n d - q\<bar> \<le> E"
    unfolding q_def E_def by (rule ieee_div_error[OF assms])
  then have a: "q - E \<le> ieee_div n d" and b: "ieee_div n d \<le> q + E" by linarith+
  from a show "of_nat n / of_nat d - (of_nat n / of_nat d) / 2 ^ 53 \<le> ieee_div n d"
    unfolding q_def E_def .
  from b show "ieee_div n d \<le> of_nat n / of_nat d + (of_nat n / of_nat d) / 2 ^ 53"
    unfolding q_def E_def .
qed

lemma binade_unique:
  assumes "2 powi e1 \<le> (q :: rat)" "q < 2 powi (e1 + 1)"
      and "2 powi e2 \<le> q" "q < 2 powi (e2 + 1)"
  shows "e1 = e2"
proof (rule ccontr)
  assume "e1 \<noteq> e2"
  then consider "e1 + 1 \<le> e2" | "e2 + 1 \<le> e1" by linarith
  then show False
  proof cases
    case 1
    then have "(2::rat) powi (e1 + 1) \<le> 2 powi e2" by (intro power_int_increasing) simp_all
    with assms show False by linarith
  next
    case 2
    then have "(2::rat) powi (e2 + 1) \<le> 2 powi e1" by (intro power_int_increasing) simp_all
    with assms show False by linarith
  qed
qed

lemma ieee_div_cong:
  assumes "0 < d" "0 < d'" and "n * d' = n' * d"
  shows "ieee_div n d = ieee_div n' d'"
proof (cases "n = 0")
  case True
  then have "n' = 0" using assms by simp
  with True show ?thesis by (simp add: ieee_div_def)
next
  case False
  then have n: "0 < n" by simp
  have n': "0 < n'" using assms n by (cases "n' = 0") simp_all
  have "(of_nat (n * d') :: rat) = of_nat (n' * d)" using assms(3) by simp
  then have q: "(of_nat n / of_nat d :: rat) = of_nat n' / of_nat d'"
    using assms(1,2) by (simp add: field_simps)
  have "binade n d = binade n' d'"
    using binade_bounds[OF n assms(1)] binade_bounds[OF n' assms(2)]
    unfolding q by (rule binade_unique)
  then show ?thesis using n n' by (simp add: ieee_div_def q)
qed

lemma ieee_div_gt_200: "(200 < ieee_div n 3) = (600 < n)"
proof -
  define q :: rat where "q = of_nat n / 3"
  have lo: "q - q / 2 ^ 53 \<le> ieee_div n 3" and hi: "ieee_div n 3 \<le> q + q / 2 ^ 53"
    using ieee_div_bounds[of 3 n] by (simp_all add: q_def)
  consider "n \<le> 599" | "n = 600" | "601 \<le> n" by linarith
  then show ?thesis
  proof cases
    case 1
    then have "(of_nat n :: rat) \<le> of_nat 599" by (simp only: of_nat_le_iff)
    then have "q \<le> 599 / 3" by (simp add: q_def)
    then have "q + q / 2 ^ 53 < 200" by simp
    then show ?thesis using 1 hi by simp
  next
    case 2
    have "ieee_div 600 3 = 200" by code_simp
    then show ?thesis using 2 by simp
  next
    case 3
    then have "(of_nat 601 :: rat) \<le> of_nat n" by (simp only: of_nat_le_iff)
    then have "601 / 3 \<le> q" by (simp add: q_def)
    then have "200 < q - q / 2 ^ 53" by simp
    then show ?thesis using 3 lo by simp
  qed
qed

lemma ieee_div_gt_literal:
  assumes "0 < s" and "6 * s < 2 ^ 53"
  shows "(ieee_div 6 10 < ieee_div b s) = (3 * s < 5 * b)"
proof -
  define q :: rat where "q = of_nat b / of_nat s"
  define L :: rat where "L = ieee_div 6 10"
  define eps :: rat where "eps = 1 / 2 ^ 53"
  have spos: "(0::rat) < of_nat s" using assms(1) by simp
  have sbound: "6 * (of_nat s :: rat) * eps < 1"
  proof -
    have "(of_nat (6 * s) :: rat) < of_nat (2 ^ 53)" using assms(2) by (simp only: of_nat_less_iff)
    then show ?thesis by (simp add: eps_def)
  qed
  have q_lo: "q * (1 - eps) \<le> ieee_div b s" and q_hi: "ieee_div b s \<le> q * (1 + eps)"
    using ieee_div_bounds[OF assms(1), of b] by (simp_all add: q_def eps_def algebra_simps)
  have L_lo: "3 / 5 - 3 / 5 * eps \<le> L" and L_hi: "L \<le> 3 / 5 + 3 / 5 * eps"
    using ieee_div_bounds[of 10 6] by (simp_all add: L_def eps_def)
  have S3: "(3 / 5 + 1 / (5 * of_nat s)) * (of_nat s :: rat) = 3 / 5 * of_nat s + 1 / 5"
    using spos by (simp add: distrib_right)
  have S3': "(3 / 5 - 1 / (5 * of_nat s)) * (of_nat s :: rat) = 3 / 5 * of_nat s - 1 / 5"
    using spos by (simp add: left_diff_distrib)
  have qnn: "0 \<le> q" by (simp add: q_def)
  have epos: "0 < eps" by (simp add: eps_def)
  consider "3 * s < 5 * b" | "3 * s = 5 * b" | "5 * b < 3 * s" by linarith
  then show ?thesis
  proof cases
    case 1
    then have "3 * s + 1 \<le> 5 * b" by simp
    then have "(of_nat (3 * s + 1) :: rat) \<le> of_nat (5 * b)" by (simp only: of_nat_le_iff)
    then have "(3 * of_nat s + 1 :: rat) \<le> 5 * of_nat b" by simp
    then have "3 / 5 * of_nat s + 1 / 5 \<le> (of_nat b :: rat)" by linarith
    then have lo: "3 / 5 + 1 / (5 * of_nat s) \<le> q"
      unfolding q_def pos_le_divide_eq[OF spos] S3 .
    have "L \<le> 3 / 5 + 3 / 5 * eps" by (rule L_hi)
    also have "\<dots> < (3 / 5 + 1 / (5 * of_nat s)) * (1 - eps)"
    proof -
      have "(3 / 5 + 1 / (5 * of_nat s)) * (1 - eps) - (3 / 5 + 3 / 5 * eps)
            = (1 - eps - 6 * of_nat s * eps) / (5 * of_nat s)"
        using spos by (simp add: field_simps)
      moreover have "0 < (1 - eps - 6 * of_nat s * eps) / (5 * of_nat s)"
      proof -
        have "6 * s + 1 \<le> 2 ^ 53" using assms(2) by simp
        then have "(of_nat (6 * s + 1) :: rat) \<le> of_nat (2 ^ 53)"
          by (simp only: of_nat_le_iff)
        then have "6 * (of_nat s :: rat) * eps + eps \<le> 1" by (simp add: eps_def field_simps)
        moreover have "6 * (of_nat s :: rat) * eps + eps \<noteq> 1"
        proof
          assume "6 * (of_nat s :: rat) * eps + eps = 1"
          then have "(of_nat (6 * s + 1) :: rat) = of_nat (2 ^ 53)" by (simp add: eps_def field_simps)
          then have "6 * s + 1 = 2 ^ 53" by (simp only: of_nat_eq_iff)
          then have "even (6 * s + 1)" by simp
          then show False by simp
        qed
        ultimately have "0 < 1 - eps - 6 * of_nat s * eps" by linarith
        then show ?thesis using spos by simp
      qed
      ultimately show ?thesis by linarith
    qed
    also have "\<dots> \<le> q * (1 - eps)"
      using lo by (intro mult_right_mono) (simp_all add: eps_def)
    also have "\<dots> \<le> ieee_div b s" by (rule q_lo)
    finally show ?thesis using 1 by (simp add: L_def)
  next
    case 2
    have "ieee_div b s = ieee_div 6 10"
      by (rule ieee_div_cong) (use assms(1) 2 in simp_all)
    then show ?thesis using 2 by simp
  next
    case 3
    then have "5 * b + 1 \<le> 3 * s" by simp
    then have "(of_nat (5 * b + 1) :: rat) \<le> of_nat (3 * s)" by (simp only: of_nat_le_iff)
    then have "(5 * of_nat b :: rat) \<le> 3 * of_nat s - 1" by simp
    then have "(of_nat b :: rat) \<le> 3 / 5 * of_nat s - 1 / 5" by linarith
    then have hi: "q \<le> 3 / 5 - 1 / (5 * of_nat s)"
      unfolding q_def pos_divide_le_eq[OF spos] S3' .
    have "ieee_div b s \<le> q * (1 + eps)" by (rule q_hi)
    also have "\<dots> \<le> (3 / 5 - 1 / (5 * of_nat s)) * (1 + eps)"
      using hi epos by (intro mult_right_mono) simp_all
    also have "\<dots> \<le> 3 / 5 - 3 / 5 * eps"
    proof -
      have "(3 / 5 - 3 / 5 * eps) - (3 / 5 - 1 / (5 * of_nat s)) * (1 + eps)
            = (1 + eps - 6 * of_nat s * eps) / (5 * of_nat s)"
        using spos by (simp add: field_simps)
      moreover have "0 \<le> (1 + eps - 6 * of_nat s * eps) / (5 * of_nat s)"
        using sbound epos spos by simp
      ultimately show ?thesis by linarith
    qed
    also have "\<dots> \<le> L" by (rule L_lo)
    finally have "\<not> L < ieee_div b s" by simp
    then show ?thesis using 3 by (simp add: L_def)
  qed
qed

subsection \<open>The sampling loop\<close>

lemma mean_gt_200: "(200 < (of_nat n :: rat) / 3) = (600 < n)"
proof -
  have "(200 < (of_nat n :: rat) / 3) = ((of_nat 600 :: rat) < of_nat n)"
    by (simp add: less_divide_eq)
  also have "\<dots> = (600 < n)" by (simp only: of_nat_less_iff)
  finally show ?thesis .
qed

lemma shouldInvert_loop_unfold:
  "shouldInvert_loop data i (b, s) =
     (if i < length data then
        shouldInvert_loop data (i + 20)
          (if js_gt (brightness data i) 200 then b + 1 else b, s + 1)
      else (b, s))"
  by (rule shouldInvert_loop.simps)

lemma shouldInvert_loop_char:
  assumes "M = (length data + 19) div 20" and "k \<le> M"
  shows "shouldInvert_loop data (20 * k) (b, s) =
           (b + length (filter (\<lambda>j. js_gt (brightness data (20 * j)) 200) [k..<M]), s + (M - k))"
  using assms(2)
proof (induction "M - k" arbitrary: k b s)
  case 0
  then have "k = M" by simp
  then have "\<not> 20 * k < length data" using assms(1) by simp
  then show ?case using \<open>k = M\<close> by (subst shouldInvert_loop_unfold) simp
next
  case (Suc n)
  then have lt: "k < M" by simp
  then have inr: "20 * k < length data" using assms(1) by linarith
  have IH: "shouldInvert_loop data (20 * Suc k) (b', s') =
           (b' + length (filter (\<lambda>j. js_gt (brightness data (20 * j)) 200) [Suc k..<M]), s' + (M - Suc k))" for b' s'
    using Suc.hyps(1)[of "Suc k" b' s'] Suc.hyps(2) lt by simp
  have step: "20 * k + 20 = 20 * Suc k" by simp
  show ?case
    apply (subst shouldInvert_loop_unfold)
    apply (simp only: inr if_True step IH)
    using lt by (simp add: upt_conv_Cons)
qed

lemma spec_sampled_eq: "spec_sampled N = map (\<lambda>k. 5 * k) [0..<(N + 4) div 5]"
proof (induction N)
  case 0
  show ?case by (simp add: spec_sampled_def)
next
  case (Suc N)
  show ?case
  proof (cases "5 dvd N")
    case True
    then obtain k where k: "N = 5 * k" by (auto simp: dvd_def)
    have "(Suc N + 4) div 5 = Suc ((N + 4) div 5)" using k by simp
    moreover have "(N + 4) div 5 = k" using k by simp
    ultimately show ?thesis using Suc True k by (simp add: spec_sampled_def)
  next
    case False
    then have "(Suc N + 4) div 5 = (N + 4) div 5" by presburger
    then show ?thesis using Suc False by (simp add: spec_sampled_def)
  qed
qed

lemma length_spec_sampled: "length (spec_sampled N) = (N + 4) div 5"
  by (simp add: spec_sampled_eq)

lemma brightness_pixel:
  assumes "length data = 4 * N" and "p < N"
  shows "js_gt (brightness data (4 * p)) 200 = spec_bright data p"
proof -
  define total where
    "total = unat (data ! (4 * p)) + unat (data ! (4 * p + 1)) + unat (data ! (4 * p + 2))"
  have "4 * p < length data" "4 * p + 1 < length data" "4 * p + 2 < length data"
    using assms by simp_all
  then have "typed_get data (4 * p) = Some (unat (data ! (4 * p)))"
    and "typed_get data (4 * p + 1) = Some (unat (data ! (4 * p + 1)))"
    and "typed_get data (4 * p + 2) = Some (unat (data ! (4 * p + 2)))"
    by (simp_all only: typed_get_def if_True)
  then have b: "brightness data (4 * p) = Num (ieee_div total 3)"
    by (simp add: brightness_def js_div_def total_def)
  have s: "spec_bright data p = (600 < total)"
    unfolding spec_bright_def spec_mean_def total_def by (rule mean_gt_200)
  show ?thesis
    by (simp only: b s js_gt.simps ieee_div_gt_200)
qed

lemma shouldInvert_loop_pixels:
  assumes len: "length data = 4 * N"
  shows "shouldInvert_loop data 0 (0, 0) = (spec_bright_count data N, length (spec_sampled N))"
proof -
  let ?M = "(N + 4) div 5"
  have M: "?M = (length data + 19) div 20" using len by simp
  have inr: "5 * j < N" if "j < ?M" for j using that by linarith
  have "filter (\<lambda>j. js_gt (brightness data (20 * j)) 200) [0..<?M]
        = filter (\<lambda>j. spec_bright data (5 * j)) [0..<?M]"
  proof (rule filter_cong[OF refl])
    fix j assume "j \<in> set [0..<?M]"
    then have "5 * j < N" using inr by simp
    from brightness_pixel[OF len this] show "js_gt (brightness data (20 * j)) 200 = spec_bright data (5 * j)"
      by simp
  qed
  moreover have "length (filter (\<lambda>j. spec_bright data (5 * j)) [0..<?M]) = spec_bright_count data N"
    by (simp add: spec_bright_count_def spec_sampled_eq filter_map comp_def)
  ultimately show ?thesis
    using shouldInvert_loop_char[OF M, of 0 0 0] by (simp add: length_spec_sampled)
qed

lemma spec_bright_count_le: "spec_bright_count data N \<le> length (spec_sampled N)"
  by (simp add: spec_bright_count_def)

lemma shouldInvert_counts:
  assumes "shouldInvert_loop data 0 (0, 0) = (b, s)" and "6 * s < 2 ^ 53"
  shows "shouldInvert data = (3 * s < 5 * b)"
proof (cases "s = 0")
  case True
  then show ?thesis using assms(1) by (cases "b = 0") (simp_all add: shouldInvert_def js_div_def)
next
  case False
  then have "0 < s" by simp
  from ieee_div_gt_literal[OF this assms(2), of b] show ?thesis
    using assms(1) False by (simp add: shouldInvert_def js_div_def)
qed

subsection \<open>The inversion loop\<close>

lemma clamp_u8_invert: "clamp_u8 (255 - uint (v :: u8)) = 255 - v"
proof -
  have "uint v < 256" using uint_bounded[of v] by simp
  moreover have "0 \<le> uint v" by simp
  ultimately have "\<not> 255 - uint v < 0" "\<not> 255 < 255 - uint v" by linarith+
  moreover have "word_of_int (255 - uint v) = (255 :: u8) - v"
    by (simp add: wi_hom_sub [symmetric])
  ultimately show ?thesis by (simp add: clamp_u8_def)
qed

lemma unat_invert: "unat (255 - (v :: u8)) = 255 - unat v"
proof -
  have "unat v < 256" using unsigned_less[of v, where 'a=nat] by simp
  then have "v \<le> 255" by (simp add: word_le_nat_alt)
  then show ?thesis by (simp add: unat_sub)
qed

lemma length_invert_at: "length (invert_at d i) = length d"
  by (simp add: invert_at_def typed_get_def)

lemma nth_invert_at:
  "j < length d \<Longrightarrow> invert_at d i ! j = (if j = i then 255 - d ! j else d ! j)"
  by (simp add: invert_at_def typed_get_def clamp_u8_invert)

lemma length_invert_loop: "length (invert_loop d i) = length d"
proof (induction d i rule: invert_loop.induct)
  case (1 d i)
  show ?case
  proof (cases "i < length d")
    case True
    then show ?thesis using 1 by (subst invert_loop.simps) (simp add: length_invert_at)
  next
    case False
    then show ?thesis by (subst invert_loop.simps) simp
  qed
qed

lemma nth_invert_loop:
  "j < length d \<Longrightarrow>
     invert_loop d i ! j = (if i \<le> j \<and> (j - i) mod 4 \<noteq> 3 then 255 - d ! j else d ! j)"
proof (induction d i rule: invert_loop.induct)
  case (1 d i)
  show ?case
  proof (cases "i < length d")
    case True
    let ?d' = "invert_at (invert_at (invert_at d i) (i + 1)) (i + 2)"
    have len: "j < length ?d'" using 1(2) by (simp add: length_invert_at)
    have d': "?d' ! j = (if j = i \<or> j = i + 1 \<or> j = i + 2 then 255 - d ! j else d ! j)"
      using 1(2) by (simp add: nth_invert_at length_invert_at)
    have IH: "invert_loop ?d' (i + 4) ! j =
                (if i + 4 \<le> j \<and> (j - (i + 4)) mod 4 \<noteq> 3 then 255 - ?d' ! j else ?d' ! j)"
      using 1(1)[OF True len] .
    have unf: "invert_loop d i = invert_loop ?d' (i + 4)"
      using True by (subst invert_loop.simps) simp
    have eq: "invert_loop d i ! j =
                (if i + 4 \<le> j \<and> (j - (i + 4)) mod 4 \<noteq> 3 then 255 - ?d' ! j else ?d' ! j)"
      by (simp only: unf IH)
    have eq2: "invert_loop d i ! j =
                (if i + 4 \<le> j \<and> (j - (i + 4)) mod 4 \<noteq> 3
                 then 255 - (if j = i \<or> j = i + 1 \<or> j = i + 2 then 255 - d ! j else d ! j)
                 else (if j = i \<or> j = i + 1 \<or> j = i + 2 then 255 - d ! j else d ! j))"
      by (simp only: eq d')
    consider "j < i" | "j = i" | "j = i + 1" | "j = i + 2" | "j = i + 3" | "i + 4 \<le> j"
      by linarith
    then show ?thesis
    proof cases
      case 6
      then obtain k where k: "j = i + 4 + k" using le_Suc_ex by blast
      have "(j - i) mod 4 = (j - (i + 4)) mod 4"
        unfolding k by simp
      with 6 show ?thesis unfolding eq2 by simp
    qed (use eq2 in simp_all)
  next
    case False
    then show ?thesis using 1(2) by (subst invert_loop.simps) simp
  qed
qed

lemma invert_loop_0_nth:
  "j < length d \<Longrightarrow> invert_loop d 0 ! j = (if j mod 4 = 3 then d ! j else 255 - d ! j)"
  by (simp add: nth_invert_loop)

lemma invert_loop_twice: "invert_loop (invert_loop d 0) 0 = d"
  by (rule nth_equalityI) (simp_all add: length_invert_loop invert_loop_0_nth)

subsection \<open>The extension test\<close>

lemma char_eq_iff_nat: "c = d \<longleftrightarrow> (of_char c :: nat) = of_char d"
  by (metis char_of_char)

lemma of_char_toLowerCase_char:
  "(of_char (toLowerCase_char c) :: nat) =
     (if 65 \<le> (of_char c :: nat) \<and> (of_char c :: nat) \<le> 90 then of_char c + 32 else of_char c)"
  by (simp add: toLowerCase_char_def Let_def)

lemma toLowerCase_char_dot: "toLowerCase_char c = CHR ''.'' \<longleftrightarrow> c = CHR ''.''"
proof -
  have "toLowerCase_char c = CHR ''.'' \<longleftrightarrow> (of_char (toLowerCase_char c) :: nat) = 46"
    by (subst char_eq_iff_nat) simp
  also have "\<dots> \<longleftrightarrow> (of_char c :: nat) = 46"
    unfolding of_char_toLowerCase_char by auto
  also have "\<dots> \<longleftrightarrow> c = CHR ''.''"
    by (simp add: char_eq_iff_nat[of c])
  finally show ?thesis .
qed

lemma toLowerCase_char_g: "toLowerCase_char c = CHR ''g'' \<longleftrightarrow> c = CHR ''g'' \<or> c = CHR ''G''"
proof -
  have "toLowerCase_char c = CHR ''g'' \<longleftrightarrow> (of_char (toLowerCase_char c) :: nat) = 103"
    by (subst char_eq_iff_nat) simp
  also have "\<dots> \<longleftrightarrow> (of_char c :: nat) = 103 \<or> (of_char c :: nat) = 71"
    unfolding of_char_toLowerCase_char by auto
  also have "\<dots> \<longleftrightarrow> c = CHR ''g'' \<or> c = CHR ''G''"
    by (simp add: char_eq_iff_nat[of c])
  finally show ?thesis .
qed

lemma toLowerCase_char_i: "toLowerCase_char c = CHR ''i'' \<longleftrightarrow> c = CHR ''i'' \<or> c = CHR ''I''"
proof -
  have "toLowerCase_char c = CHR ''i'' \<longleftrightarrow> (of_char (toLowerCase_char c) :: nat) = 105"
    by (subst char_eq_iff_nat) simp
  also have "\<dots> \<longleftrightarrow> (of_char c :: nat) = 105 \<or> (of_char c :: nat) = 73"
    unfolding of_char_toLowerCase_char by auto
  also have "\<dots> \<longleftrightarrow> c = CHR ''i'' \<or> c = CHR ''I''"
    by (simp add: char_eq_iff_nat[of c])
  finally show ?thesis .
qed

lemma toLowerCase_char_f: "toLowerCase_char c = CHR ''f'' \<longleftrightarrow> c = CHR ''f'' \<or> c = CHR ''F''"
proof -
  have "toLowerCase_char c = CHR ''f'' \<longleftrightarrow> (of_char (toLowerCase_char c) :: nat) = 102"
    by (subst char_eq_iff_nat) simp
  also have "\<dots> \<longleftrightarrow> (of_char c :: nat) = 102 \<or> (of_char c :: nat) = 70"
    unfolding of_char_toLowerCase_char by auto
  also have "\<dots> \<longleftrightarrow> c = CHR ''f'' \<or> c = CHR ''F''"
    by (simp add: char_eq_iff_nat[of c])
  finally show ?thesis .
qed

lemma endsWith_gif_iff: "endsWith (toLowerCase s) ''.gif'' = spec_gif_extension s"
proof (cases "length s < 4")
  case True
  then have "length (rev s) < 4" by simp
  then have "\<not> spec_gif_extension s"
    unfolding spec_gif_extension_def by (cases "rev s" rule: list.exhaust) (auto split: list.splits)
  moreover have "\<not> endsWith (toLowerCase s) ''.gif''"
    using True by (simp add: endsWith_def toLowerCase_def)
  ultimately show ?thesis by simp
next
  case False
  define p where "p = take (length s - 4) s"
  define e where "e = drop (length s - 4) s"
  have s: "s = p @ e" by (simp add: p_def e_def)
  have "length e = 4" using False by (simp add: e_def)
  then obtain c0 c1 c2 c3 where e: "e = [c0, c1, c2, c3]"
    by (auto simp: length_Suc_conv eval_nat_numeral)
  show ?thesis
    unfolding s e
    by (auto simp: endsWith_def toLowerCase_def spec_gif_extension_def
        toLowerCase_char_dot toLowerCase_char_g toLowerCase_char_i toLowerCase_char_f)
qed

subsection \<open>The pixel path\<close>

lemma processImage_inverts:
  assumes "\<not> (naturalWidth img < 120 \<or> naturalHeight img < 120)"
      and "\<not> endsWith (toLowerCase (src img)) ''.gif''"
      and "\<not> getContext_null B"
      and "\<not> drawImage_throws B"
      and "\<not> getImageData_throws B"
      and "shouldInvert (pixels B)"
      and "url = toDataURL B \<lparr>canvas_width = naturalWidth img,
                                 canvas_height = naturalHeight img,
                                 bitmap = invert_loop (pixels B) 0\<rparr>"
  shows "processImage B img =
           (img\<lparr>dataset_processed := Some ''true'', src := url\<rparr>,
           [Set_processed, CreateCanvas, GetContext,
            Set_canvas_size (naturalWidth img) (naturalHeight img), DrawImage, GetImageData,
            Call_shouldInvert (pixels B), Call_invertImage,
            PutImageData (invert_loop (pixels B) 0), ToDataURL,
            Set_src url,
            Console_log [''[AutoInvert]'', ''Image inverted via canvas:'', url]])"
  using assms(1-6) unfolding assms(7)
  by (simp add: processImage_def invertImage_def Let_def log_def DEBUG_def)

subsection \<open>Buffers of white pixels followed by transparent black ones\<close>

text \<open>
  Such a buffer of \<open>a + b\<close> pixels has \<open>\<lceil>a / 5\<rceil>\<close> bright samples among
  \<open>\<lceil>(a + b) / 5\<rceil>\<close>. With 81000 and 9000 pixels it is a 300 by 300 image with 90% of
  its samples bright, with 27000 and 63000 pixels one with 30%.
\<close>

lemma two_tone_bright:
  assumes "p < a + b"
  shows "spec_bright (replicate (4 * a) 255 @ replicate (4 * b) 0) p = (p < a)"
proof (cases "p < a")
  case True
  then have "4 * p < 4 * a" "4 * p + 1 < 4 * a" "4 * p + 2 < 4 * a" by simp_all
  then show ?thesis using True
    by (simp add: spec_bright_def spec_mean_def nth_append)
next
  case False
  then have ge: "\<not> 4 * p < 4 * a" "\<not> 4 * p + 1 < 4 * a" "\<not> 4 * p + 2 < 4 * a" by simp_all
  have "4 * p - 4 * a < 4 * b" "4 * p + 1 - 4 * a < 4 * b" "4 * p + 2 - 4 * a < 4 * b"
    using assms False by simp_all
  then show ?thesis using False ge
    by (simp add: spec_bright_def spec_mean_def nth_append)
qed

lemma length_filter_below:
  "length (filter (\<lambda>k. 5 * k < a) [0..<M]) = min M ((a + 4) div 5)"
proof (induction M)
  case 0
  show ?case by simp
next
  case (Suc M)
  show ?case
  proof (cases "5 * M < a")
    case True
    then have "M < (a + 4) div 5" by linarith
    then show ?thesis using Suc True by simp
  next
    case False
    then have "(a + 4) div 5 \<le> M" by linarith
    then show ?thesis using Suc False by simp
  qed
qed

lemma spec_bright_count_two_tone:
  "spec_bright_count (replicate (4 * a) 255 @ replicate (4 * b) 0) (a + b) = (a + 4) div 5"
proof -
  let ?data = "replicate (4 * a) 255 @ replicate (4 * b) 0 :: u8 list"
  let ?M = "(a + b + 4) div 5"
  have "filter (\<lambda>k. spec_bright ?data (5 * k)) [0..<?M] = filter (\<lambda>k. 5 * k < a) [0..<?M]"
  proof (rule filter_cong[OF refl])
    fix k assume "k \<in> set [0..<?M]"
    then have "k < ?M" by simp
    then have "5 * k < a + b" by linarith
    then show "spec_bright ?data (5 * k) = (5 * k < a)" by (rule two_tone_bright)
  qed
  then have "spec_bright_count ?data (a + b) = length (filter (\<lambda>k. 5 * k < a) [0..<?M])"
    by (simp add: spec_bright_count_def spec_sampled_eq filter_map comp_def)
  also have "\<dots> = min ?M ((a + 4) div 5)" by (rule length_filter_below)
  also have "\<dots> = (a + 4) div 5" by simp
  finally show ?thesis .
qed

lemma shouldInvert_two_tone:
  assumes "4 * (a + b) < 2 ^ 53"
  shows "shouldInvert (replicate (4 * a) 255 @ replicate (4 * b) 0)
     = (3 * ((a + b + 4) div 5) < 5 * ((a + 4) div 5))"
proof -
  let ?data = "replicate (4 * a) 255 @ replicate (4 * b) 0 :: u8 list"
  have len: "length ?data = 4 * (a + b)" by simp
  have loop: "shouldInvert_loop ?data 0 (0, 0) = ((a + 4) div 5, (a + b + 4) div 5)"
    using shouldInvert_loop_pixels[OF len]
    by (simp only: spec_bright_count_two_tone length_spec_sampled)
  have small: "6 * ((a + b + 4) div 5) < 2 ^ 53" using assms by simp
  from shouldInvert_counts[OF loop small] show ?thesis .
qed

lemma scenario_A_inverts: "shouldInvert (replicate 324000 255 @ replicate 36000 0)"
  using shouldInvert_two_tone[of 81000 9000] by simp

lemma scenario_B_keeps: "\<not> shouldInvert (replicate 108000 255 @ replicate 252000 0)"
  using shouldInvert_two_tone[of 27000 63000] by simp

lemma page_png_not_gif: "\<not> endsWith (toLowerCase ''https://example.org/page.png'') ''.gif''"
  by (simp add: endsWith_gif_iff spec_gif_extension_def)

section \<open>The claims\<close>

text \<open>
  Claim C1. For a pixel buffer of \<open>N\<close> pixels (\<open>4 * N\<close> bytes, fewer than \<open>2 ^ 53\<close>,
  as every typed array has), the counters the loop of \<^verbatim>\<open>shouldInvert\<close> returns are
  the number of sampled pixels whose mean of red, green and blue is strictly greater
  than 200, and the number of sampled pixels. The verdict is "should invert" exactly
  when bright / sampled, as an exact ratio, is strictly greater than 6 / 10 (for every
  such buffer, the empty one included: exactly when 3 * sampled < 5 * bright). In
  particular a non-empty buffer with at least 61% of its sampled pixels bright is
  inverted, and one with 60% or fewer is not. The rounding of the two divisions and of
  the literal \<^verbatim>\<open>0.6\<close> changes neither comparison.
\<close>

theorem C1_shouldInvert_threshold:
  assumes "length data = 4 * N" and "length data < 2 ^ 53"
  shows "shouldInvert_loop data 0 (0, 0) = (spec_bright_count data N, length (spec_sampled N))
       \<and> (shouldInvert data \<longleftrightarrow> 3 * length (spec_sampled N) < 5 * spec_bright_count data N)
       \<and> (0 < N \<longrightarrow>
            (shouldInvert data \<longleftrightarrow>
               (6 / 10 :: rat) < of_nat (spec_bright_count data N) / of_nat (length (spec_sampled N))))
       \<and> (0 < N \<and> 61 * length (spec_sampled N) \<le> 100 * spec_bright_count data N
            \<longrightarrow> shouldInvert data)
       \<and> (100 * spec_bright_count data N \<le> 60 * length (spec_sampled N)
            \<longrightarrow> \<not> shouldInvert data)"
proof -
  let ?b = "spec_bright_count data N" and ?s = "length (spec_sampled N)"
  have loop: "shouldInvert_loop data 0 (0, 0) = (?b, ?s)"
    by (rule shouldInvert_loop_pixels[OF assms(1)])
  have small: "6 * ?s < 2 ^ 53"
    using assms by (simp add: length_spec_sampled)
  have iff: "shouldInvert data = (3 * ?s < 5 * ?b)"
    by (rule shouldInvert_counts[OF loop small])
  have ratio: "shouldInvert data = ((6 / 10 :: rat) < of_nat ?b / of_nat ?s)" if "0 < N"
  proof -
    from that have pos: "(0::rat) < of_nat ?s" by (simp add: length_spec_sampled)
    have "((6 / 10 :: rat) < of_nat ?b / of_nat ?s) = ((6 / 10 :: rat) * of_nat ?s < of_nat ?b)"
      using pos by (simp only: pos_less_divide_eq)
    also have "\<dots> = ((of_nat (3 * ?s) :: rat) < of_nat (5 * ?b))"
      by (simp add: field_simps)
    also have "\<dots> = (3 * ?s < 5 * ?b)" by (simp only: of_nat_less_iff)
    finally show ?thesis using iff by simp
  qed
  have hi: "shouldInvert data" if "0 < N" "61 * ?s \<le> 100 * ?b"
  proof -
    from that(1) have "0 < ?s" by (simp add: length_spec_sampled)
    with that(2) have "3 * ?s < 5 * ?b" by linarith
    then show ?thesis using iff by simp
  qed
  have lo: "\<not> shouldInvert data" if "100 * ?b \<le> 60 * ?s"
    using that iff by simp
  show ?thesis using loop iff ratio hi lo by blast
qed

theorem C1_shouldInvert_threshold_witness:
  "length (replicate (4 * 15) 255 @ replicate (4 * 10) 0 :: u8 list) = 4 * (15 + 10)
   \<and> spec_bright_count (replicate (4 * 15) 255 @ replicate (4 * 10) 0) (15 + 10) = 3
   \<and> length (spec_sampled (15 + 10)) = 5
   \<and> \<not> shouldInvert (replicate (4 * 15) 255 @ replicate (4 * 10) 0)
   \<and> length (replicate (4 * 305) 255 @ replicate (4 * 195) 0 :: u8 list) = 4 * (305 + 195)
   \<and> spec_bright_count (replicate (4 * 305) 255 @ replicate (4 * 195) 0) (305 + 195) = 61
   \<and> length (spec_sampled (305 + 195)) = 100
   \<and> shouldInvert (replicate (4 * 305) 255 @ replicate (4 * 195) 0)"
proof -
  have l1: "length (replicate (4 * 15) 255 @ replicate (4 * 10) 0 :: u8 list) = 4 * (15 + 10)"
    by simp
  have l2: "length (replicate (4 * 305) 255 @ replicate (4 * 195) 0 :: u8 list) = 4 * (305 + 195)"
    by simp
  have c1: "spec_bright_count (replicate (4 * 15) 255 @ replicate (4 * 10) 0) (15 + 10) = 3"
    using spec_bright_count_two_tone[of 15 10] by simp
  have c2: "spec_bright_count (replicate (4 * 305) 255 @ replicate (4 * 195) 0) (305 + 195) = 61"
    using spec_bright_count_two_tone[of 305 195] by simp
  have s: "length (spec_sampled (15 + 10)) = 5" "length (spec_sampled (305 + 195)) = 100"
    by (simp_all add: length_spec_sampled)
  have b1: "length (replicate (4 * 15) 255 @ replicate (4 * 10) 0 :: u8 list) < 2 ^ 53"
    by simp
  have b2: "length (replicate (4 * 305) 255 @ replicate (4 * 195) 0 :: u8 list) < 2 ^ 53"
    by simp
  have n1: "\<not> shouldInvert (replicate (4 * 15) 255 @ replicate (4 * 10) 0)"
    using C1_shouldInvert_threshold [OF l1 b1] c1 s by simp
  have n2: "shouldInvert (replicate (4 * 305) 255 @ replicate (4 * 195) 0)"
    using C1_shouldInvert_threshold [OF l2 b2] c2 s by simp
  show ?thesis using l1 l2 c1 c2 s n1 n2 by (intro conjI)
qed

text \<open>
  Claim C2. Applying \<^verbatim>\<open>invertImage\<close> to the buffer it produced gives back the
  original bytes. One application keeps the length and every alpha byte (index 3
  modulo 4), and replaces every red, green and blue byte \<open>v\<close> by \<open>255 - v\<close>; the
  value stored for \<open>255 - (255 - v)\<close> is \<open>v\<close>, for every byte \<open>v\<close>.
\<close>

theorem C2_invertImage_involution:
  "fst (snd (invertImage cv' (fst (snd (invertImage cv d))))) = d
   \<and> length (fst (snd (invertImage cv d))) = length d
   \<and> (\<forall>i < length d. i mod 4 = 3 \<longrightarrow> fst (snd (invertImage cv d)) ! i = d ! i)
   \<and> (\<forall>i < length d. i mod 4 \<noteq> 3 \<longrightarrow>
         unat (fst (snd (invertImage cv d)) ! i) = 255 - unat (d ! i))
   \<and> (\<forall>v :: u8. clamp_u8 (255 - uint (clamp_u8 (255 - uint v))) = v)"
  by (simp add: invertImage_def Let_def invert_loop_twice length_invert_loop
      invert_loop_0_nth unat_invert clamp_u8_invert)

theorem C2_invertImage_involution_witness:
  "fst (snd (invertImage \<lparr>canvas_width = 2, canvas_height = 1, bitmap = [245, 235, 225, 40, 5, 255, 0, 7]\<rparr>
        (fst (snd (invertImage \<lparr>canvas_width = 2, canvas_height = 1, bitmap = [10, 20, 30, 40, 250, 0, 255, 7]\<rparr>
           [10, 20, 30, 40, 250, 0, 255, 7])))))
     = [10, 20, 30, 40, 250, 0, 255, 7]
   \<and> fst (snd (invertImage \<lparr>canvas_width = 2, canvas_height = 1, bitmap = [10, 20, 30, 40, 250, 0, 255, 7]\<rparr>
           [10, 20, 30, 40, 250, 0, 255, 7])) ! 7 = 7
   \<and> unat (fst (snd (invertImage \<lparr>canvas_width = 2, canvas_height = 1, bitmap = [10, 20, 30, 40, 250, 0, 255, 7]\<rparr>
           [10, 20, 30, 40, 250, 0, 255, 7])) ! 4) = 5"
proof -
  note t = C2_invertImage_involution
    [of "\<lparr>canvas_width = 2, canvas_height = 1, bitmap = [245, 235, 225, 40, 5, 255, 0, 7]\<rparr>"
        "\<lparr>canvas_width = 2, canvas_height = 1, bitmap = [10, 20, 30, 40, 250, 0, 255, 7]\<rparr>"
        "[10, 20, 30, 40, 250, 0, 255, 7]"]
  from t have a: "fst (snd (invertImage \<lparr>canvas_width = 2, canvas_height = 1, bitmap = [245, 235, 225, 40, 5, 255, 0, 7]\<rparr>
        (fst (snd (invertImage \<lparr>canvas_width = 2, canvas_height = 1, bitmap = [10, 20, 30, 40, 250, 0, 255, 7]\<rparr>
           [10, 20, 30, 40, 250, 0, 255, 7])))))
     = [10, 20, 30, 40, 250, 0, 255, 7]"
    by (rule conjunct1)
  from t have al: "\<forall>i < length [10, 20, 30, 40, 250, 0, 255, 7 :: u8]. i mod 4 = 3 \<longrightarrow>
      fst (snd (invertImage \<lparr>canvas_width = 2, canvas_height = 1, bitmap = [10, 20, 30, 40, 250, 0, 255, 7]\<rparr>
           [10, 20, 30, 40, 250, 0, 255, 7])) ! i = [10, 20, 30, 40, 250, 0, 255, 7] ! i"
    by (elim conjE)
  from t have rgb: "\<forall>i < length [10, 20, 30, 40, 250, 0, 255, 7 :: u8]. i mod 4 \<noteq> 3 \<longrightarrow>
      unat (fst (snd (invertImage \<lparr>canvas_width = 2, canvas_height = 1, bitmap = [10, 20, 30, 40, 250, 0, 255, 7]\<rparr>
           [10, 20, 30, 40, 250, 0, 255, 7])) ! i) = 255 - unat ([10, 20, 30, 40, 250, 0, 255, 7 :: u8] ! i)"
    by (elim conjE)
  from al[rule_format, of 7] have b: "fst (snd (invertImage \<lparr>canvas_width = 2, canvas_height = 1, bitmap = [10, 20, 30, 40, 250, 0, 255, 7]\<rparr>
           [10, 20, 30, 40, 250, 0, 255, 7])) ! 7 = 7"
    by simp
  from rgb[rule_format, of 4] have c: "unat (fst (snd (invertImage \<lparr>canvas_width = 2, canvas_height = 1, bitmap = [10, 20, 30, 40, 250, 0, 255, 7]\<rparr>
           [10, 20, 30, 40, 250, 0, 255, 7])) ! 4) = 5"
    by simp
  from a b c show ?thesis by (intro conjI)
qed

text \<open>
  Claim C3. For an image that passes the size and extension checks and gets a 2D context,
  if \<^verbatim>\<open>drawImage\<close> throws or \<^verbatim>\<open>getImageData\<close> throws, then \<^verbatim>\<open>applyCssFallback\<close>
  is called: the element ends with the filter
  \<^verbatim>\<open>invert(1) hue-rotate(180deg) brightness(1.1) contrast(1.1)\<close> at priority
  \<^verbatim>\<open>important\<close> and the background colour \<^verbatim>\<open>black\<close>; apart from the style and the
  processed marker the element is as it was, its source included; \<^verbatim>\<open>shouldInvert\<close>
  is never called, nothing is written to the canvas and the source is never assigned.
\<close>

theorem C3_cross_origin_fallback:
  assumes "\<not> (naturalWidth img < 120 \<or> naturalHeight img < 120)"
      and "\<not> endsWith (toLowerCase (src img)) ''.gif''"
      and "\<not> getContext_null B"
      and "drawImage_throws B \<or> getImageData_throws B"
  shows "fst (processImage B img) =
           img\<lparr>dataset_processed := Some ''true'',
               style := (style img)
                 (''filter'' \<mapsto>
                    (''invert(1) hue-rotate(180deg) brightness(1.1) contrast(1.1)'', ''important''),
                  ''background-color'' \<mapsto> (''black'', ''''))\<rparr>
       \<and> fst (processImage B img) = fst (applyCssFallback (img\<lparr>dataset_processed := Some ''true''\<rparr>))
       \<and> src (fst (processImage B img)) = src img
       \<and> Call_applyCssFallback \<in> set (snd (processImage B img))
       \<and> (\<forall>d. Call_shouldInvert d \<notin> set (snd (processImage B img)))
       \<and> (\<forall>d. PutImageData d \<notin> set (snd (processImage B img)))
       \<and> (\<forall>u. Set_src u \<notin> set (snd (processImage B img)))"
proof (cases "drawImage_throws B")
  case True
  then show ?thesis using assms(1-3)
    by (simp add: processImage_def applyCssFallback_def Let_def log_def DEBUG_def)
next
  case False
  then have "getImageData_throws B" using assms(4) by simp
  then show ?thesis using assms(1-3) False
    by (simp add: processImage_def applyCssFallback_def Let_def log_def DEBUG_def)
qed

theorem C3_cross_origin_fallback_witness:
  "drawImage_throws \<lparr>getContext_null = False, drawImage_throws = True, getImageData_throws = False, pixels = [], toDataURL = (\<lambda>cv. ''data:,'')\<rparr>
   \<and> style (fst (processImage \<lparr>getContext_null = False, drawImage_throws = True, getImageData_throws = False, pixels = [], toDataURL = (\<lambda>cv. ''data:,'')\<rparr> \<lparr>dataset_processed = None, naturalWidth = 300, naturalHeight = 300, src = ''https://example.org/page.png'', complete = True, onload = False, style = Map.empty\<rparr>)) ''filter'' = Some (''invert(1) hue-rotate(180deg) brightness(1.1) contrast(1.1)'', ''important'')
   \<and> style (fst (processImage \<lparr>getContext_null = False, drawImage_throws = True, getImageData_throws = False, pixels = [], toDataURL = (\<lambda>cv. ''data:,'')\<rparr> \<lparr>dataset_processed = None, naturalWidth = 300, naturalHeight = 300, src = ''https://example.org/page.png'', complete = True, onload = False, style = Map.empty\<rparr>)) ''background-color'' = Some (''black'', [])
   \<and> src (fst (processImage \<lparr>getContext_null = False, drawImage_throws = True, getImageData_throws = False, pixels = [], toDataURL = (\<lambda>cv. ''data:,'')\<rparr> \<lparr>dataset_processed = None, naturalWidth = 300, naturalHeight = 300, src = ''https://example.org/page.png'', complete = True, onload = False, style = Map.empty\<rparr>)) = ''https://example.org/page.png''
   \<and> getImageData_throws \<lparr>getContext_null = False, drawImage_throws = False, getImageData_throws = True, pixels = [], toDataURL = (\<lambda>cv. ''data:,'')\<rparr>
   \<and> style (fst (processImage \<lparr>getContext_null = False, drawImage_throws = False, getImageData_throws = True, pixels = [], toDataURL = (\<lambda>cv. ''data:,'')\<rparr> \<lparr>dataset_processed = None, naturalWidth = 300, naturalHeight = 300, src = ''https://example.org/page.png'', complete = True, onload = False, style = Map.empty\<rparr>)) ''filter'' = Some (''invert(1) hue-rotate(180deg) brightness(1.1) contrast(1.1)'', ''important'')
   \<and> style (fst (processImage \<lparr>getContext_null = False, drawImage_throws = False, getImageData_throws = True, pixels = [], toDataURL = (\<lambda>cv. ''data:,'')\<rparr> \<lparr>dataset_processed = None, naturalWidth = 300, naturalHeight = 300, src = ''https://example.org/page.png'', complete = True, onload = False, style = Map.empty\<rparr>)) ''background-color'' = Some (''black'', [])
   \<and> src (fst (processImage \<lparr>getContext_null = False, drawImage_throws = False, getImageData_throws = True, pixels = [], toDataURL = (\<lambda>cv. ''data:,'')\<rparr> \<lparr>dataset_processed = None, naturalWidth = 300, naturalHeight = 300, src = ''https://example.org/page.png'', complete = True, onload = False, style = Map.empty\<rparr>)) = ''https://example.org/page.png''"
proof -
  have e1: "\<not> (naturalWidth \<lparr>dataset_processed = None, naturalWidth = 300, naturalHeight = 300, src = ''https://example.org/page.png'', complete = True, onload = False, style = Map.empty\<rparr> < 120 \<or> naturalHeight \<lparr>dataset_processed = None, naturalWidth = 300, naturalHeight = 300, src = ''https://example.org/page.png'', complete = True, onload = False, style = Map.empty\<rparr> < 120)"
    by simp
  have e2: "\<not> endsWith (toLowerCase (src \<lparr>dataset_processed = None, naturalWidth = 300, naturalHeight = 300, src = ''https://example.org/page.png'', complete = True, onload = False, style = Map.empty\<rparr>)) ''.gif''"
    using page_png_not_gif by simp
  have d3: "\<not> getContext_null \<lparr>getContext_null = False, drawImage_throws = True, getImageData_throws = False, pixels = [], toDataURL = (\<lambda>cv. ''data:,'')\<rparr>" by simp
  have d4: "drawImage_throws \<lparr>getContext_null = False, drawImage_throws = True, getImageData_throws = False, pixels = [], toDataURL = (\<lambda>cv. ''data:,'')\<rparr>" by simp
  have r3: "\<not> getContext_null \<lparr>getContext_null = False, drawImage_throws = False, getImageData_throws = True, pixels = [], toDataURL = (\<lambda>cv. ''data:,'')\<rparr>" by simp
  have r4: "getImageData_throws \<lparr>getContext_null = False, drawImage_throws = False, getImageData_throws = True, pixels = [], toDataURL = (\<lambda>cv. ''data:,'')\<rparr>" by simp
  note t1 = C3_cross_origin_fallback [OF e1 e2 d3 disjI1 [OF d4]]
  note t2 = C3_cross_origin_fallback [OF e1 e2 r3 disjI2 [OF r4]]
  have p1: "fst (processImage \<lparr>getContext_null = False, drawImage_throws = True, getImageData_throws = False, pixels = [], toDataURL = (\<lambda>cv. ''data:,'')\<rparr> \<lparr>dataset_processed = None, naturalWidth = 300, naturalHeight = 300, src = ''https://example.org/page.png'', complete = True, onload = False, style = Map.empty\<rparr>) =
           \<lparr>dataset_processed = None, naturalWidth = 300, naturalHeight = 300, src = ''https://example.org/page.png'', complete = True, onload = False, style = Map.empty\<rparr>\<lparr>dataset_processed := Some ''true'',
               style := (style \<lparr>dataset_processed = None, naturalWidth = 300, naturalHeight = 300, src = ''https://example.org/page.png'', complete = True, onload = False, style = Map.empty\<rparr>)
                 (''filter'' \<mapsto> (''invert(1) hue-rotate(180deg) brightness(1.1) contrast(1.1)'', ''important''),
                  ''background-color'' \<mapsto> (''black'', []))\<rparr>"
    using t1 by (rule conjunct1)
  have p2: "fst (processImage \<lparr>getContext_null = False, drawImage_throws = False, getImageData_throws = True, pixels = [], toDataURL = (\<lambda>cv. ''data:,'')\<rparr> \<lparr>dataset_processed = None, naturalWidth = 300, naturalHeight = 300, src = ''https://example.org/page.png'', complete = True, onload = False, style = Map.empty\<rparr>) =
           \<lparr>dataset_processed = None, naturalWidth = 300, naturalHeight = 300, src = ''https://example.org/page.png'', complete = True, onload = False, style = Map.empty\<rparr>\<lparr>dataset_processed := Some ''true'',
               style := (style \<lparr>dataset_processed = None, naturalWidth = 300, naturalHeight = 300, src = ''https://example.org/page.png'', complete = True, onload = False, style = Map.empty\<rparr>)
                 (''filter'' \<mapsto> (''invert(1) hue-rotate(180deg) brightness(1.1) contrast(1.1)'', ''important''),
                  ''background-color'' \<mapsto> (''black'', []))\<rparr>"
    using t2 by (rule conjunct1)
  have a1: "style (fst (processImage \<lparr>getContext_null = False, drawImage_throws = True, getImageData_throws = False, pixels = [], toDataURL = (\<lambda>cv. ''data:,'')\<rparr> \<lparr>dataset_processed = None, naturalWidth = 300, naturalHeight = 300, src = ''https://example.org/page.png'', complete = True, onload = False, style = Map.empty\<rparr>)) ''filter'' = Some (''invert(1) hue-rotate(180deg) brightness(1.1) contrast(1.1)'', ''important'')"
    by (simp only: p1) simp
  have b1: "style (fst (processImage \<lparr>getContext_null = False, drawImage_throws = True, getImageData_throws = False, pixels = [], toDataURL = (\<lambda>cv. ''data:,'')\<rparr> \<lparr>dataset_processed = None, naturalWidth = 300, naturalHeight = 300, src = ''https://example.org/page.png'', complete = True, onload = False, style = Map.empty\<rparr>)) ''background-color'' = Some (''black'', [])"
    by (simp only: p1) simp
  have c1: "src (fst (processImage \<lparr>getContext_null = False, drawImage_throws = True, getImageData_throws = False, pixels = [], toDataURL = (\<lambda>cv. ''data:,'')\<rparr> \<lparr>dataset_processed = None, naturalWidth = 300, naturalHeight = 300, src = ''https://example.org/page.png'', complete = True, onload = False, style = Map.empty\<rparr>)) = ''https://example.org/page.png''"
    by (simp only: p1) simp
  have a2: "style (fst (processImage \<lparr>getContext_null = False, drawImage_throws = False, getImageData_throws = True, pixels = [], toDataURL = (\<lambda>cv. ''data:,'')\<rparr> \<lparr>dataset_processed = None, naturalWidth = 300, naturalHeight = 300, src = ''https://example.org/page.png'', complete = True, onload = False, style = Map.empty\<rparr>)) ''filter'' = Some (''invert(1) hue-rotate(180deg) brightness(1.1) contrast(1.1)'', ''important'')"
    by (simp only: p2) simp
  have b2: "style (fst (processImage \<lparr>getContext_null = False, drawImage_throws = False, getImageData_throws = True, pixels = [], toDataURL = (\<lambda>cv. ''data:,'')\<rparr> \<lparr>dataset_processed = None, naturalWidth = 300, naturalHeight = 300, src = ''https://example.org/page.png'', complete = True, onload = False, style = Map.empty\<rparr>)) ''background-color'' = Some (''black'', [])"
    by (simp only: p2) simp
  have c2: "src (fst (processImage \<lparr>getContext_null = False, drawImage_throws = False, getImageData_throws = True, pixels = [], toDataURL = (\<lambda>cv. ''data:,'')\<rparr> \<lparr>dataset_processed = None, naturalWidth = 300, naturalHeight = 300, src = ''https://example.org/page.png'', complete = True, onload = False, style = Map.empty\<rparr>)) = ''https://example.org/page.png''"
    by (simp only: p2) simp
  from d4 a1 b1 c1 r4 a2 b2 c2 show ?thesis by (intro conjI)
qed

text \<open>
  Claim C4. For an image whose natural width or natural height is below 120,
  \<^verbatim>\<open>processImage\<close> sets the processed marker first, logs the skip and stops: no canvas
  is created, nothing is drawn or read back, the source and the style are unchanged. A
  later scan leaves the element alone, whatever the browser would answer.
\<close>

theorem C4_small_image_skipped:
  assumes "naturalWidth img < 120 \<or> naturalHeight img < 120"
  shows "processImage B img =
           (img\<lparr>dataset_processed := Some ''true''\<rparr>,
            [Set_processed, Console_log [''[AutoInvert]'', ''Skipping small image:'', src img]])
       \<and> hd (snd (processImage B img)) = Set_processed
       \<and> CreateCanvas \<notin> set (snd (processImage B img))
       \<and> DrawImage \<notin> set (snd (processImage B img))
       \<and> GetImageData \<notin> set (snd (processImage B img))
       \<and> src (fst (processImage B img)) = src img
       \<and> style (fst (processImage B img)) = style img
       \<and> scanImage B' (fst (processImage B img)) = (fst (processImage B img), [])
       \<and> scanImages B' [fst (processImage B img)] = ([fst (processImage B img)], [])"
proof -
  have p: "processImage B img =
           (img\<lparr>dataset_processed := Some ''true''\<rparr>,
            [Set_processed, Console_log [''[AutoInvert]'', ''Skipping small image:'', src img]])"
    using assms by (simp add: processImage_def Let_def log_def DEBUG_def)
  show ?thesis unfolding p by (simp add: scanImage_def)
qed

theorem C4_small_image_skipped_witness:
  "naturalWidth \<lparr>dataset_processed = None, naturalWidth = 50, naturalHeight = 50, src = ''https://example.org/icon.png'', complete = True, onload = False, style = Map.empty\<rparr> < 120
   \<and> dataset_processed (fst (processImage \<lparr>getContext_null = False, drawImage_throws = False, getImageData_throws = False, pixels = replicate 324000 255 @ replicate 36000 0, toDataURL = (\<lambda>cv. ''data:image/png;base64,inverted'')\<rparr> \<lparr>dataset_processed = None, naturalWidth = 50, naturalHeight = 50, src = ''https://example.org/icon.png'', complete = True, onload = False, style = Map.empty\<rparr>)) = Some ''true''
   \<and> snd (processImage \<lparr>getContext_null = False, drawImage_throws = False, getImageData_throws = False, pixels = replicate 324000 255 @ replicate 36000 0, toDataURL = (\<lambda>cv. ''data:image/png;base64,inverted'')\<rparr> \<lparr>dataset_processed = None, naturalWidth = 50, naturalHeight = 50, src = ''https://example.org/icon.png'', complete = True, onload = False, style = Map.empty\<rparr>)
       = [Set_processed, Console_log [''[AutoInvert]'', ''Skipping small image:'', ''https://example.org/icon.png'']]
   \<and> snd (scanImages (\<lambda>s. \<lparr>getContext_null = False, drawImage_throws = False, getImageData_throws = False, pixels = replicate 324000 255 @ replicate 36000 0, toDataURL = (\<lambda>cv. ''data:image/png;base64,inverted'')\<rparr>) [fst (processImage \<lparr>getContext_null = False, drawImage_throws = False, getImageData_throws = False, pixels = replicate 324000 255 @ replicate 36000 0, toDataURL = (\<lambda>cv. ''data:image/png;base64,inverted'')\<rparr> \<lparr>dataset_processed = None, naturalWidth = 50, naturalHeight = 50, src = ''https://example.org/icon.png'', complete = True, onload = False, style = Map.empty\<rparr>)]) = []"
proof -
  have h: "naturalWidth \<lparr>dataset_processed = None, naturalWidth = 50, naturalHeight = 50, src = ''https://example.org/icon.png'', complete = True, onload = False, style = Map.empty\<rparr> < 120 \<or> naturalHeight \<lparr>dataset_processed = None, naturalWidth = 50, naturalHeight = 50, src = ''https://example.org/icon.png'', complete = True, onload = False, style = Map.empty\<rparr> < 120"
    by simp
  note t = C4_small_image_skipped [OF h, of "\<lparr>getContext_null = False, drawImage_throws = False, getImageData_throws = False, pixels = replicate 324000 255 @ replicate 36000 0, toDataURL = (\<lambda>cv. ''data:image/png;base64,inverted'')\<rparr>" "\<lambda>s. \<lparr>getContext_null = False, drawImage_throws = False, getImageData_throws = False, pixels = replicate 324000 255 @ replicate 36000 0, toDataURL = (\<lambda>cv. ''data:image/png;base64,inverted'')\<rparr>"]
  have p: "processImage \<lparr>getContext_null = False, drawImage_throws = False, getImageData_throws = False, pixels = replicate 324000 255 @ replicate 36000 0, toDataURL = (\<lambda>cv. ''data:image/png;base64,inverted'')\<rparr> \<lparr>dataset_processed = None, naturalWidth = 50, naturalHeight = 50, src = ''https://example.org/icon.png'', complete = True, onload = False, style = Map.empty\<rparr> =
      (\<lparr>dataset_processed = None, naturalWidth = 50, naturalHeight = 50, src = ''https://example.org/icon.png'', complete = True, onload = False, style = Map.empty\<rparr>\<lparr>dataset_processed := Some ''true''\<rparr>,
       [Set_processed, Console_log [''[AutoInvert]'', ''Skipping small image:'', src \<lparr>dataset_processed = None, naturalWidth = 50, naturalHeight = 50, src = ''https://example.org/icon.png'', complete = True, onload = False, style = Map.empty\<rparr>]])"
    using t by (rule conjunct1)
  have s: "scanImages (\<lambda>s. \<lparr>getContext_null = False, drawImage_throws = False, getImageData_throws = False, pixels = replicate 324000 255 @ replicate 36000 0, toDataURL = (\<lambda>cv. ''data:image/png;base64,inverted'')\<rparr>) [fst (processImage \<lparr>getContext_null = False, drawImage_throws = False, getImageData_throws = False, pixels = replicate 324000 255 @ replicate 36000 0, toDataURL = (\<lambda>cv. ''data:image/png;base64,inverted'')\<rparr> \<lparr>dataset_processed = None, naturalWidth = 50, naturalHeight = 50, src = ''https://example.org/icon.png'', complete = True, onload = False, style = Map.empty\<rparr>)]
         = ([fst (processImage \<lparr>getContext_null = False, drawImage_throws = False, getImageData_throws = False, pixels = replicate 324000 255 @ replicate 36000 0, toDataURL = (\<lambda>cv. ''data:image/png;base64,inverted'')\<rparr> \<lparr>dataset_processed = None, naturalWidth = 50, naturalHeight = 50, src = ''https://example.org/icon.png'', complete = True, onload = False, style = Map.empty\<rparr>)], [])"
    using t by (elim conjE)
  have a: "naturalWidth \<lparr>dataset_processed = None, naturalWidth = 50, naturalHeight = 50, src = ''https://example.org/icon.png'', complete = True, onload = False, style = Map.empty\<rparr> < 120" by simp
  have b: "dataset_processed (fst (processImage \<lparr>getContext_null = False, drawImage_throws = False, getImageData_throws = False, pixels = replicate 324000 255 @ replicate 36000 0, toDataURL = (\<lambda>cv. ''data:image/png;base64,inverted'')\<rparr> \<lparr>dataset_processed = None, naturalWidth = 50, naturalHeight = 50, src = ''https://example.org/icon.png'', complete = True, onload = False, style = Map.empty\<rparr>)) = Some ''true''"
    by (simp only: p fst_conv) simp
  have c: "snd (processImage \<lparr>getContext_null = False, drawImage_throws = False, getImageData_throws = False, pixels = replicate 324000 255 @ replicate 36000 0, toDataURL = (\<lambda>cv. ''data:image/png;base64,inverted'')\<rparr> \<lparr>dataset_processed = None, naturalWidth = 50, naturalHeight = 50, src = ''https://example.org/icon.png'', complete = True, onload = False, style = Map.empty\<rparr>)
       = [Set_processed, Console_log [''[AutoInvert]'', ''Skipping small image:'', ''https://example.org/icon.png'']]"
    by (simp only: p snd_conv) simp
  have d: "snd (scanImages (\<lambda>s. \<lparr>getContext_null = False, drawImage_throws = False, getImageData_throws = False, pixels = replicate 324000 255 @ replicate 36000 0, toDataURL = (\<lambda>cv. ''data:image/png;base64,inverted'')\<rparr>) [fst (processImage \<lparr>getContext_null = False, drawImage_throws = False, getImageData_throws = False, pixels = replicate 324000 255 @ replicate 36000 0, toDataURL = (\<lambda>cv. ''data:image/png;base64,inverted'')\<rparr> \<lparr>dataset_processed = None, naturalWidth = 50, naturalHeight = 50, src = ''https://example.org/icon.png'', complete = True, onload = False, style = Map.empty\<rparr>)]) = []"
    by (simp only: s snd_conv)
  from a b c d show ?thesis by (intro conjI)
qed

text \<open>
  Claim C5. For a buffer of \<open>N\<close> pixels (\<open>4 * N\<close> bytes) the loop of \<^verbatim>\<open>shouldInvert\<close>,
  starting at byte 0 and advancing by 20 bytes, takes \<open>\<lceil>N / 5\<rceil>\<close> samples: one for
  each pixel whose index is a multiple of 5.
\<close>

theorem C5_sample_count:
  assumes "length data = 4 * N"
  shows "snd (shouldInvert_loop data 0 (0, 0)) = nat \<lceil>(of_nat N :: rat) / 5\<rceil>
       \<and> snd (shouldInvert_loop data 0 (0, 0)) = length (spec_sampled N)"
proof -
  have "\<lceil>(of_nat N :: rat) / 5\<rceil> = int ((N + 4) div 5)"
    by (simp add: ceiling_unique of_nat_div field_simps) 
  then show ?thesis
    using shouldInvert_loop_pixels[OF assms] by (simp add: length_spec_sampled)
qed

theorem C5_sample_count_witness:
  "length (replicate 44 0 :: u8 list) = 4 * 11
   \<and> snd (shouldInvert_loop (replicate 44 0) 0 (0, 0)) = 3
   \<and> nat \<lceil>(of_nat 11 :: rat) / 5\<rceil> = 3"
proof -
  have l: "length (replicate 44 0 :: u8 list) = 4 * 11" by simp
  note t = C5_sample_count [OF l]
  from t have s: "snd (shouldInvert_loop (replicate 44 0) 0 (0, 0)) = 3"
    by (simp add: length_spec_sampled)
  from t s have c: "nat \<lceil>(of_nat 11 :: rat) / 5\<rceil> = 3"
    by simp
  from l s c show ?thesis by (intro conjI)
qed

text \<open>
  Claim C6. For an image that passes the size and extension checks, gets a 2D context,
  is drawn and read back without a denial, and on whose pixels \<^verbatim>\<open>shouldInvert\<close> is
  true: every red, green and blue byte of the buffer is replaced by 255 minus its value
  and every alpha byte is kept, this buffer is put back on the canvas, and the element's
  source becomes the encoding of that canvas; its processed marker is \<^verbatim>\<open>"true"\<close>.
\<close>

theorem C6_positive_verdict_inverts:
  assumes "\<not> (naturalWidth img < 120 \<or> naturalHeight img < 120)"
      and "\<not> endsWith (toLowerCase (src img)) ''.gif''"
      and "\<not> getContext_null B"
      and "\<not> drawImage_throws B"
      and "\<not> getImageData_throws B"
      and "shouldInvert (pixels B)"
  shows "fst (processImage B img) =
           img\<lparr>dataset_processed := Some ''true'',
               src := toDataURL B \<lparr>canvas_width = naturalWidth img,
                                    canvas_height = naturalHeight img,
                                    bitmap = invert_loop (pixels B) 0\<rparr>\<rparr>
       \<and> snd (processImage B img) =
           [Set_processed, CreateCanvas, GetContext,
            Set_canvas_size (naturalWidth img) (naturalHeight img), DrawImage, GetImageData,
            Call_shouldInvert (pixels B), Call_invertImage,
            PutImageData (invert_loop (pixels B) 0), ToDataURL,
            Set_src (src (fst (processImage B img))),
            Console_log [''[AutoInvert]'', ''Image inverted via canvas:'',
                         src (fst (processImage B img))]]
       \<and> length (invert_loop (pixels B) 0) = length (pixels B)
       \<and> (\<forall>i < length (pixels B).
             unat (invert_loop (pixels B) 0 ! i) =
               (if i mod 4 = 3 then unat (pixels B ! i) else 255 - unat (pixels B ! i)))
       \<and> dataset_processed (fst (processImage B img)) = Some ''true''"
proof -
  define url where "url = toDataURL B \<lparr>canvas_width = naturalWidth img,
                                 canvas_height = naturalHeight img,
                                 bitmap = invert_loop (pixels B) 0\<rparr>"
  note p = processImage_inverts[OF assms url_def]
  have a: "fst (processImage B img) = img\<lparr>dataset_processed := Some ''true'', src := url\<rparr>"
    by (simp only: p fst_conv)
  have s: "src (fst (processImage B img)) = url"
    by (simp only: a) simp
  have b: "snd (processImage B img) =
           [Set_processed, CreateCanvas, GetContext,
            Set_canvas_size (naturalWidth img) (naturalHeight img), DrawImage, GetImageData,
            Call_shouldInvert (pixels B), Call_invertImage,
            PutImageData (invert_loop (pixels B) 0), ToDataURL,
            Set_src (src (fst (processImage B img))),
            Console_log [''[AutoInvert]'', ''Image inverted via canvas:'',
                         src (fst (processImage B img))]]"
    by (simp only: s) (simp only: p snd_conv)
  have c: "length (invert_loop (pixels B) 0) = length (pixels B)"
    by (rule length_invert_loop)
  have d: "\<forall>i < length (pixels B).
             unat (invert_loop (pixels B) 0 ! i) =
               (if i mod 4 = 3 then unat (pixels B ! i) else 255 - unat (pixels B ! i))"
    by (simp add: invert_loop_0_nth unat_invert)
  have e: "dataset_processed (fst (processImage B img)) = Some ''true''"
    by (simp only: a) simp
  show ?thesis
    using a[unfolded url_def] b c d e by (intro conjI)
qed

theorem C6_positive_verdict_inverts_witness:
  "shouldInvert (pixels \<lparr>getContext_null = False, drawImage_throws = False, getImageData_throws = False, pixels = replicate 324000 255 @ replicate 36000 0, toDataURL = (\<lambda>cv. ''data:image/png;base64,inverted'')\<rparr>)
   \<and> spec_bright_count (replicate 324000 255 @ replicate 36000 0) 90000 = 16200
   \<and> length (spec_sampled 90000) = 18000
   \<and> dataset_processed (fst (processImage \<lparr>getContext_null = False, drawImage_throws = False, getImageData_throws = False, pixels = replicate 324000 255 @ replicate 36000 0, toDataURL = (\<lambda>cv. ''data:image/png;base64,inverted'')\<rparr> \<lparr>dataset_processed = None, naturalWidth = 300, naturalHeight = 300, src = ''https://example.org/page.png'', complete = True, onload = False, style = Map.empty\<rparr>)) = Some ''true''
   \<and> src (fst (processImage \<lparr>getContext_null = False, drawImage_throws = False, getImageData_throws = False, pixels = replicate 324000 255 @ replicate 36000 0, toDataURL = (\<lambda>cv. ''data:image/png;base64,inverted'')\<rparr> \<lparr>dataset_processed = None, naturalWidth = 300, naturalHeight = 300, src = ''https://example.org/page.png'', complete = True, onload = False, style = Map.empty\<rparr>)) = ''data:image/png;base64,inverted''
   \<and> unat (invert_loop (pixels \<lparr>getContext_null = False, drawImage_throws = False, getImageData_throws = False, pixels = replicate 324000 255 @ replicate 36000 0, toDataURL = (\<lambda>cv. ''data:image/png;base64,inverted'')\<rparr>) 0 ! 0) = 0
   \<and> unat (invert_loop (pixels \<lparr>getContext_null = False, drawImage_throws = False, getImageData_throws = False, pixels = replicate 324000 255 @ replicate 36000 0, toDataURL = (\<lambda>cv. ''data:image/png;base64,inverted'')\<rparr>) 0 ! 3) = 255"
proof -
  have e1: "\<not> (naturalWidth \<lparr>dataset_processed = None, naturalWidth = 300, naturalHeight = 300, src = ''https://example.org/page.png'', complete = True, onload = False, style = Map.empty\<rparr> < 120 \<or> naturalHeight \<lparr>dataset_processed = None, naturalWidth = 300, naturalHeight = 300, src = ''https://example.org/page.png'', complete = True, onload = False, style = Map.empty\<rparr> < 120)"
    by simp
  have e2: "\<not> endsWith (toLowerCase (src \<lparr>dataset_processed = None, naturalWidth = 300, naturalHeight = 300, src = ''https://example.org/page.png'', complete = True, onload = False, style = Map.empty\<rparr>)) ''.gif''"
    using page_png_not_gif by simp
  have e3: "\<not> getContext_null \<lparr>getContext_null = False, drawImage_throws = False, getImageData_throws = False, pixels = replicate 324000 255 @ replicate 36000 0, toDataURL = (\<lambda>cv. ''data:image/png;base64,inverted'')\<rparr>" by simp
  have e4: "\<not> drawImage_throws \<lparr>getContext_null = False, drawImage_throws = False, getImageData_throws = False, pixels = replicate 324000 255 @ replicate 36000 0, toDataURL = (\<lambda>cv. ''data:image/png;base64,inverted'')\<rparr>" by simp
  have e5: "\<not> getImageData_throws \<lparr>getContext_null = False, drawImage_throws = False, getImageData_throws = False, pixels = replicate 324000 255 @ replicate 36000 0, toDataURL = (\<lambda>cv. ''data:image/png;base64,inverted'')\<rparr>" by simp
  have e6: "shouldInvert (pixels \<lparr>getContext_null = False, drawImage_throws = False, getImageData_throws = False, pixels = replicate 324000 255 @ replicate 36000 0, toDataURL = (\<lambda>cv. ''data:image/png;base64,inverted'')\<rparr>)"
    using scenario_A_inverts by simp
  note t = C6_positive_verdict_inverts [OF e1 e2 e3 e4 e5 e6]
  have p: "fst (processImage \<lparr>getContext_null = False, drawImage_throws = False, getImageData_throws = False, pixels = replicate 324000 255 @ replicate 36000 0, toDataURL = (\<lambda>cv. ''data:image/png;base64,inverted'')\<rparr> \<lparr>dataset_processed = None, naturalWidth = 300, naturalHeight = 300, src = ''https://example.org/page.png'', complete = True, onload = False, style = Map.empty\<rparr>) =
           \<lparr>dataset_processed = None, naturalWidth = 300, naturalHeight = 300, src = ''https://example.org/page.png'', complete = True, onload = False, style = Map.empty\<rparr>\<lparr>dataset_processed := Some ''true'',
               src := toDataURL \<lparr>getContext_null = False, drawImage_throws = False, getImageData_throws = False, pixels = replicate 324000 255 @ replicate 36000 0, toDataURL = (\<lambda>cv. ''data:image/png;base64,inverted'')\<rparr> \<lparr>canvas_width = naturalWidth \<lparr>dataset_processed = None, naturalWidth = 300, naturalHeight = 300, src = ''https://example.org/page.png'', complete = True, onload = False, style = Map.empty\<rparr>,
                                    canvas_height = naturalHeight \<lparr>dataset_processed = None, naturalWidth = 300, naturalHeight = 300, src = ''https://example.org/page.png'', complete = True, onload = False, style = Map.empty\<rparr>,
                                    bitmap = invert_loop (pixels \<lparr>getContext_null = False, drawImage_throws = False, getImageData_throws = False, pixels = replicate 324000 255 @ replicate 36000 0, toDataURL = (\<lambda>cv. ''data:image/png;base64,inverted'')\<rparr>) 0\<rparr>\<rparr>"
    using t by (rule conjunct1)
  have r: "\<forall>i < length (pixels \<lparr>getContext_null = False, drawImage_throws = False, getImageData_throws = False, pixels = replicate 324000 255 @ replicate 36000 0, toDataURL = (\<lambda>cv. ''data:image/png;base64,inverted'')\<rparr>).
             unat (invert_loop (pixels \<lparr>getContext_null = False, drawImage_throws = False, getImageData_throws = False, pixels = replicate 324000 255 @ replicate 36000 0, toDataURL = (\<lambda>cv. ''data:image/png;base64,inverted'')\<rparr>) 0 ! i) =
               (if i mod 4 = 3 then unat (pixels \<lparr>getContext_null = False, drawImage_throws = False, getImageData_throws = False, pixels = replicate 324000 255 @ replicate 36000 0, toDataURL = (\<lambda>cv. ''data:image/png;base64,inverted'')\<rparr> ! i) else 255 - unat (pixels \<lparr>getContext_null = False, drawImage_throws = False, getImageData_throws = False, pixels = replicate 324000 255 @ replicate 36000 0, toDataURL = (\<lambda>cv. ''data:image/png;base64,inverted'')\<rparr> ! i))"
    using t by (elim conjE)
  have a: "dataset_processed (fst (processImage \<lparr>getContext_null = False, drawImage_throws = False, getImageData_throws = False, pixels = replicate 324000 255 @ replicate 36000 0, toDataURL = (\<lambda>cv. ''data:image/png;base64,inverted'')\<rparr> \<lparr>dataset_processed = None, naturalWidth = 300, naturalHeight = 300, src = ''https://example.org/page.png'', complete = True, onload = False, style = Map.empty\<rparr>)) = Some ''true''"
    by (simp only: p) simp
  have b: "src (fst (processImage \<lparr>getContext_null = False, drawImage_throws = False, getImageData_throws = False, pixels = replicate 324000 255 @ replicate 36000 0, toDataURL = (\<lambda>cv. ''data:image/png;base64,inverted'')\<rparr> \<lparr>dataset_processed = None, naturalWidth = 300, naturalHeight = 300, src = ''https://example.org/page.png'', complete = True, onload = False, style = Map.empty\<rparr>)) = ''data:image/png;base64,inverted''"
    by (simp only: p) simp
  have c: "unat (invert_loop (pixels \<lparr>getContext_null = False, drawImage_throws = False, getImageData_throws = False, pixels = replicate 324000 255 @ replicate 36000 0, toDataURL = (\<lambda>cv. ''data:image/png;base64,inverted'')\<rparr>) 0 ! 0) = 0"
    using r[rule_format, of 0] by (simp add: nth_append)
  have d: "unat (invert_loop (pixels \<lparr>getContext_null = False, drawImage_throws = False, getImageData_throws = False, pixels = replicate 324000 255 @ replicate 36000 0, toDataURL = (\<lambda>cv. ''data:image/png;base64,inverted'')\<rparr>) 0 ! 3) = 255"
    using r[rule_format, of 3] by (simp add: nth_append)
  have f: "spec_bright_count (replicate 324000 255 @ replicate 36000 0) 90000 = 16200"
    using spec_bright_count_two_tone[of 81000 9000] by simp
  have g: "length (spec_sampled 90000) = 18000"
    by (simp add: length_spec_sampled)
  from e6 f g a b c d show ?thesis by (intro conjI)
qed

text \<open>
  Claim C7. For an image that passes the size and extension checks, gets a 2D context,
  is drawn and read back without a denial, and on whose pixels \<^verbatim>\<open>shouldInvert\<close> is
  false: processing stops after the classifier; the element is as it was (source and
  style included) except that its processed marker is \<^verbatim>\<open>"true"\<close>.
\<close>

theorem C7_negative_verdict_no_mutation:
  assumes "\<not> (naturalWidth img < 120 \<or> naturalHeight img < 120)"
      and "\<not> endsWith (toLowerCase (src img)) ''.gif''"
      and "\<not> getContext_null B"
      and "\<not> drawImage_throws B"
      and "\<not> getImageData_throws B"
      and "\<not> shouldInvert (pixels B)"
  shows "processImage B img =
           (img\<lparr>dataset_processed := Some ''true''\<rparr>,
            [Set_processed, CreateCanvas, GetContext,
             Set_canvas_size (naturalWidth img) (naturalHeight img), DrawImage, GetImageData,
             Call_shouldInvert (pixels B),
             Console_log [''[AutoInvert]'', ''Image does not meet inversion criteria:'', src img]])
       \<and> src (fst (processImage B img)) = src img
       \<and> style (fst (processImage B img)) = style img
       \<and> dataset_processed (fst (processImage B img)) = Some ''true''"
proof -
  have p: "processImage B img =
           (img\<lparr>dataset_processed := Some ''true''\<rparr>,
            [Set_processed, CreateCanvas, GetContext,
             Set_canvas_size (naturalWidth img) (naturalHeight img), DrawImage, GetImageData,
             Call_shouldInvert (pixels B),
             Console_log [''[AutoInvert]'', ''Image does not meet inversion criteria:'', src img]])"
    using assms by (simp add: processImage_def Let_def log_def DEBUG_def)
  show ?thesis unfolding p by simp
qed

theorem C7_negative_verdict_no_mutation_witness:
  "\<not> shouldInvert (pixels \<lparr>getContext_null = False, drawImage_throws = False, getImageData_throws = False, pixels = replicate 108000 255 @ replicate 252000 0, toDataURL = (\<lambda>cv. ''data:image/png;base64,inverted'')\<rparr>)
   \<and> spec_bright_count (replicate 108000 255 @ replicate 252000 0) 90000 = 5400
   \<and> length (spec_sampled 90000) = 18000
   \<and> fst (processImage \<lparr>getContext_null = False, drawImage_throws = False, getImageData_throws = False, pixels = replicate 108000 255 @ replicate 252000 0, toDataURL = (\<lambda>cv. ''data:image/png;base64,inverted'')\<rparr> \<lparr>dataset_processed = None, naturalWidth = 300, naturalHeight = 300, src = ''https://example.org/page.png'', complete = True, onload = False, style = Map.empty\<rparr>) = \<lparr>dataset_processed = None, naturalWidth = 300, naturalHeight = 300, src = ''https://example.org/page.png'', complete = True, onload = False, style = Map.empty\<rparr>\<lparr>dataset_processed := Some ''true''\<rparr>
   \<and> src (fst (processImage \<lparr>getContext_null = False, drawImage_throws = False, getImageData_throws = False, pixels = replicate 108000 255 @ replicate 252000 0, toDataURL = (\<lambda>cv. ''data:image/png;base64,inverted'')\<rparr> \<lparr>dataset_processed = None, naturalWidth = 300, naturalHeight = 300, src = ''https://example.org/page.png'', complete = True, onload = False, style = Map.empty\<rparr>)) = ''https://example.org/page.png''"
proof -
  have e1: "\<not> (naturalWidth \<lparr>dataset_processed = None, naturalWidth = 300, naturalHeight = 300, src = ''https://example.org/page.png'', complete = True, onload = False, style = Map.empty\<rparr> < 120 \<or> naturalHeight \<lparr>dataset_processed = None, naturalWidth = 300, naturalHeight = 300, src = ''https://example.org/page.png'', complete = True, onload = False, style = Map.empty\<rparr> < 120)"
    by simp
  have e2: "\<not> endsWith (toLowerCase (src \<lparr>dataset_processed = None, naturalWidth = 300, naturalHeight = 300, src = ''https://example.org/page.png'', complete = True, onload = False, style = Map.empty\<rparr>)) ''.gif''"
    using page_png_not_gif by simp
  have e3: "\<not> getContext_null \<lparr>getContext_null = False, drawImage_throws = False, getImageData_throws = False, pixels = replicate 108000 255 @ replicate 252000 0, toDataURL = (\<lambda>cv. ''data:image/png;base64,inverted'')\<rparr>" by simp
  have e4: "\<not> drawImage_throws \<lparr>getContext_null = False, drawImage_throws = False, getImageData_throws = False, pixels = replicate 108000 255 @ replicate 252000 0, toDataURL = (\<lambda>cv. ''data:image/png;base64,inverted'')\<rparr>" by simp
  have e5: "\<not> getImageData_throws \<lparr>getContext_null = False, drawImage_throws = False, getImageData_throws = False, pixels = replicate 108000 255 @ replicate 252000 0, toDataURL = (\<lambda>cv. ''data:image/png;base64,inverted'')\<rparr>" by simp
  have e6: "\<not> shouldInvert (pixels \<lparr>getContext_null = False, drawImage_throws = False, getImageData_throws = False, pixels = replicate 108000 255 @ replicate 252000 0, toDataURL = (\<lambda>cv. ''data:image/png;base64,inverted'')\<rparr>)"
    using scenario_B_keeps by simp
  note t = C7_negative_verdict_no_mutation [OF e1 e2 e3 e4 e5 e6]
  have p: "processImage \<lparr>getContext_null = False, drawImage_throws = False, getImageData_throws = False, pixels = replicate 108000 255 @ replicate 252000 0, toDataURL = (\<lambda>cv. ''data:image/png;base64,inverted'')\<rparr> \<lparr>dataset_processed = None, naturalWidth = 300, naturalHeight = 300, src = ''https://example.org/page.png'', complete = True, onload = False, style = Map.empty\<rparr> =
           (\<lparr>dataset_processed = None, naturalWidth = 300, naturalHeight = 300, src = ''https://example.org/page.png'', complete = True, onload = False, style = Map.empty\<rparr>\<lparr>dataset_processed := Some ''true''\<rparr>,
            [Set_processed, CreateCanvas, GetContext,
             Set_canvas_size (naturalWidth \<lparr>dataset_processed = None, naturalWidth = 300, naturalHeight = 300, src = ''https://example.org/page.png'', complete = True, onload = False, style = Map.empty\<rparr>) (naturalHeight \<lparr>dataset_processed = None, naturalWidth = 300, naturalHeight = 300, src = ''https://example.org/page.png'', complete = True, onload = False, style = Map.empty\<rparr>), DrawImage, GetImageData,
             Call_shouldInvert (pixels \<lparr>getContext_null = False, drawImage_throws = False, getImageData_throws = False, pixels = replicate 108000 255 @ replicate 252000 0, toDataURL = (\<lambda>cv. ''data:image/png;base64,inverted'')\<rparr>),
             Console_log [''[AutoInvert]'', ''Image does not meet inversion criteria:'', src \<lparr>dataset_processed = None, naturalWidth = 300, naturalHeight = 300, src = ''https://example.org/page.png'', complete = True, onload = False, style = Map.empty\<rparr>]])"
    using t by (rule conjunct1)
  have a: "fst (processImage \<lparr>getContext_null = False, drawImage_throws = False, getImageData_throws = False, pixels = replicate 108000 255 @ replicate 252000 0, toDataURL = (\<lambda>cv. ''data:image/png;base64,inverted'')\<rparr> \<lparr>dataset_processed = None, naturalWidth = 300, naturalHeight = 300, src = ''https://example.org/page.png'', complete = True, onload = False, style = Map.empty\<rparr>) = \<lparr>dataset_processed = None, naturalWidth = 300, naturalHeight = 300, src = ''https://example.org/page.png'', complete = True, onload = False, style = Map.empty\<rparr>\<lparr>dataset_processed := Some ''true''\<rparr>"
    by (simp only: p fst_conv)
  have b: "src (fst (processImage \<lparr>getContext_null = False, drawImage_throws = False, getImageData_throws = False, pixels = replicate 108000 255 @ replicate 252000 0, toDataURL = (\<lambda>cv. ''data:image/png;base64,inverted'')\<rparr> \<lparr>dataset_processed = None, naturalWidth = 300, naturalHeight = 300, src = ''https://example.org/page.png'', complete = True, onload = False, style = Map.empty\<rparr>)) = ''https://example.org/page.png''"
    by (simp only: a) simp
  have f: "spec_bright_count (replicate 108000 255 @ replicate 252000 0) 90000 = 5400"
    using spec_bright_count_two_tone[of 27000 63000] by simp
  have g: "length (spec_sampled 90000) = 18000"
    by (simp add: length_spec_sampled)
  from e6 f g a b show ?thesis by (intro conjI)
qed

text \<open>
  Claim C8. For an image whose source locator ends in \<^verbatim>\<open>.gif\<close>, in any mix of upper
  and lower case, \<^verbatim>\<open>processImage\<close> sets the processed marker, logs the skip and
  returns: no canvas is created, no context requested, nothing drawn.
\<close>

theorem C8_gif_skipped:
  assumes "spec_gif_extension (src img)"
  shows "fst (processImage B img) = img\<lparr>dataset_processed := Some ''true''\<rparr>
       \<and> snd (processImage B img) =
           [Set_processed,
            Console_log [''[AutoInvert]'',
              if naturalWidth img < 120 \<or> naturalHeight img < 120
              then ''Skipping small image:'' else ''Skipping GIF:'', src img]]
       \<and> CreateCanvas \<notin> set (snd (processImage B img))
       \<and> GetContext \<notin> set (snd (processImage B img))
       \<and> DrawImage \<notin> set (snd (processImage B img))"
proof -
  have g: "endsWith (toLowerCase (src img)) ''.gif''"
    using assms by (simp add: endsWith_gif_iff)
  have p: "processImage B img =
        (img\<lparr>dataset_processed := Some ''true''\<rparr>,
         [Set_processed,
            Console_log [''[AutoInvert]'',
              if naturalWidth img < 120 \<or> naturalHeight img < 120
              then ''Skipping small image:'' else ''Skipping GIF:'', src img]])"
    using g by (simp add: processImage_def Let_def log_def DEBUG_def)
  show ?thesis unfolding p by simp
qed

theorem C8_gif_skipped_witness:
  "spec_gif_extension (src \<lparr>dataset_processed = None, naturalWidth = 300, naturalHeight = 300, src = ''https://example.org/anim.GIF'', complete = True, onload = False, style = Map.empty\<rparr>)
   \<and> fst (processImage \<lparr>getContext_null = False, drawImage_throws = False, getImageData_throws = False, pixels = replicate 324000 255 @ replicate 36000 0, toDataURL = (\<lambda>cv. ''data:image/png;base64,inverted'')\<rparr> \<lparr>dataset_processed = None, naturalWidth = 300, naturalHeight = 300, src = ''https://example.org/anim.GIF'', complete = True, onload = False, style = Map.empty\<rparr>) = \<lparr>dataset_processed = None, naturalWidth = 300, naturalHeight = 300, src = ''https://example.org/anim.GIF'', complete = True, onload = False, style = Map.empty\<rparr>\<lparr>dataset_processed := Some ''true''\<rparr>
   \<and> snd (processImage \<lparr>getContext_null = False, drawImage_throws = False, getImageData_throws = False, pixels = replicate 324000 255 @ replicate 36000 0, toDataURL = (\<lambda>cv. ''data:image/png;base64,inverted'')\<rparr> \<lparr>dataset_processed = None, naturalWidth = 300, naturalHeight = 300, src = ''https://example.org/anim.GIF'', complete = True, onload = False, style = Map.empty\<rparr>)
       = [Set_processed, Console_log [''[AutoInvert]'', ''Skipping GIF:'', ''https://example.org/anim.GIF'']]"
proof -
  have h: "spec_gif_extension (src \<lparr>dataset_processed = None, naturalWidth = 300, naturalHeight = 300, src = ''https://example.org/anim.GIF'', complete = True, onload = False, style = Map.empty\<rparr>)"
    by (simp add: spec_gif_extension_def)
  note t = C8_gif_skipped [OF h, of "\<lparr>getContext_null = False, drawImage_throws = False, getImageData_throws = False, pixels = replicate 324000 255 @ replicate 36000 0, toDataURL = (\<lambda>cv. ''data:image/png;base64,inverted'')\<rparr>"]
  have a: "fst (processImage \<lparr>getContext_null = False, drawImage_throws = False, getImageData_throws = False, pixels = replicate 324000 255 @ replicate 36000 0, toDataURL = (\<lambda>cv. ''data:image/png;base64,inverted'')\<rparr> \<lparr>dataset_processed = None, naturalWidth = 300, naturalHeight = 300, src = ''https://example.org/anim.GIF'', complete = True, onload = False, style = Map.empty\<rparr>) = \<lparr>dataset_processed = None, naturalWidth = 300, naturalHeight = 300, src = ''https://example.org/anim.GIF'', complete = True, onload = False, style = Map.empty\<rparr>\<lparr>dataset_processed := Some ''true''\<rparr>"
    using t by (rule conjunct1)
  have "snd (processImage \<lparr>getContext_null = False, drawImage_throws = False, getImageData_throws = False, pixels = replicate 324000 255 @ replicate 36000 0, toDataURL = (\<lambda>cv. ''data:image/png;base64,inverted'')\<rparr> \<lparr>dataset_processed = None, naturalWidth = 300, naturalHeight = 300, src = ''https://example.org/anim.GIF'', complete = True, onload = False, style = Map.empty\<rparr>) =
           [Set_processed,
            Console_log [''[AutoInvert]'',
              if naturalWidth \<lparr>dataset_processed = None, naturalWidth = 300, naturalHeight = 300, src = ''https://example.org/anim.GIF'', complete = True, onload = False, style = Map.empty\<rparr> < 120 \<or> naturalHeight \<lparr>dataset_processed = None, naturalWidth = 300, naturalHeight = 300, src = ''https://example.org/anim.GIF'', complete = True, onload = False, style = Map.empty\<rparr> < 120
              then ''Skipping small image:'' else ''Skipping GIF:'', src \<lparr>dataset_processed = None, naturalWidth = 300, naturalHeight = 300, src = ''https://example.org/anim.GIF'', complete = True, onload = False, style = Map.empty\<rparr>]]"
    using t by (elim conjE)
  then have b: "snd (processImage \<lparr>getContext_null = False, drawImage_throws = False, getImageData_throws = False, pixels = replicate 324000 255 @ replicate 36000 0, toDataURL = (\<lambda>cv. ''data:image/png;base64,inverted'')\<rparr> \<lparr>dataset_processed = None, naturalWidth = 300, naturalHeight = 300, src = ''https://example.org/anim.GIF'', complete = True, onload = False, style = Map.empty\<rparr>)
       = [Set_processed, Console_log [''[AutoInvert]'', ''Skipping GIF:'', ''https://example.org/anim.GIF'']]"
    by simp
  from h a b show ?thesis by (intro conjI)
qed

text \<open>
  Claim C9. For an image that passes the size and extension checks, if
  \<^verbatim>\<open>getContext\<close> returns \<^verbatim>\<open>null\<close> then \<^verbatim>\<open>processImage\<close> returns at once:
  \<^verbatim>\<open>applyCssFallback\<close> and \<^verbatim>\<open>shouldInvert\<close> are not called, nothing is logged, and
  the element is as it was except for its processed marker.
\<close>

theorem C9_no_context_aborts:
  assumes "\<not> (naturalWidth img < 120 \<or> naturalHeight img < 120)"
      and "\<not> endsWith (toLowerCase (src img)) ''.gif''"
      and "getContext_null B"
  shows "processImage B img =
           (img\<lparr>dataset_processed := Some ''true''\<rparr>, [Set_processed, CreateCanvas, GetContext])
       \<and> Call_applyCssFallback \<notin> set (snd (processImage B img))
       \<and> (\<forall>d. Call_shouldInvert d \<notin> set (snd (processImage B img)))
       \<and> (\<forall>m. Console_log m \<notin> set (snd (processImage B img)))
       \<and> src (fst (processImage B img)) = src img
       \<and> style (fst (processImage B img)) = style img"
proof -
  have p: "processImage B img =
           (img\<lparr>dataset_processed := Some ''true''\<rparr>, [Set_processed, CreateCanvas, GetContext])"
    using assms by (simp add: processImage_def Let_def)
  show ?thesis unfolding p by simp
qed

theorem C9_no_context_aborts_witness:
  "getContext_null \<lparr>getContext_null = True, drawImage_throws = False, getImageData_throws = False, pixels = [], toDataURL = (\<lambda>cv. ''data:,'')\<rparr>
   \<and> processImage \<lparr>getContext_null = True, drawImage_throws = False, getImageData_throws = False, pixels = [], toDataURL = (\<lambda>cv. ''data:,'')\<rparr> \<lparr>dataset_processed = None, naturalWidth = 300, naturalHeight = 300, src = ''https://example.org/page.png'', complete = True, onload = False, style = Map.empty\<rparr>
       = (\<lparr>dataset_processed = None, naturalWidth = 300, naturalHeight = 300, src = ''https://example.org/page.png'', complete = True, onload = False, style = Map.empty\<rparr>\<lparr>dataset_processed := Some ''true''\<rparr>, [Set_processed, CreateCanvas, GetContext])"
proof -
  have e1: "\<not> (naturalWidth \<lparr>dataset_processed = None, naturalWidth = 300, naturalHeight = 300, src = ''https://example.org/page.png'', complete = True, onload = False, style = Map.empty\<rparr> < 120 \<or> naturalHeight \<lparr>dataset_processed = None, naturalWidth = 300, naturalHeight = 300, src = ''https://example.org/page.png'', complete = True, onload = False, style = Map.empty\<rparr> < 120)"
    by simp
  have e2: "\<not> endsWith (toLowerCase (src \<lparr>dataset_processed = None, naturalWidth = 300, naturalHeight = 300, src = ''https://example.org/page.png'', complete = True, onload = False, style = Map.empty\<rparr>)) ''.gif''"
    using page_png_not_gif by simp
  have e3: "getContext_null \<lparr>getContext_null = True, drawImage_throws = False, getImageData_throws = False, pixels = [], toDataURL = (\<lambda>cv. ''data:,'')\<rparr>" by simp
  note t = C9_no_context_aborts [OF e1 e2 e3]
  have p: "processImage \<lparr>getContext_null = True, drawImage_throws = False, getImageData_throws = False, pixels = [], toDataURL = (\<lambda>cv. ''data:,'')\<rparr> \<lparr>dataset_processed = None, naturalWidth = 300, naturalHeight = 300, src = ''https://example.org/page.png'', complete = True, onload = False, style = Map.empty\<rparr>
       = (\<lparr>dataset_processed = None, naturalWidth = 300, naturalHeight = 300, src = ''https://example.org/page.png'', complete = True, onload = False, style = Map.empty\<rparr>\<lparr>dataset_processed := Some ''true''\<rparr>, [Set_processed, CreateCanvas, GetContext])"
    using t by (rule conjunct1)
  from e3 p show ?thesis by (intro conjI)
qed

text \<open>
  Claim C10. On the empty buffer the loop of \<^verbatim>\<open>shouldInvert\<close> takes no sample and
  returns the counters (0, 0); their quotient \<^verbatim>\<open>0 / 0\<close> is \<open>NaN\<close>, the comparison
  \<^verbatim>\<open>NaN > 0.6\<close> is false, and the verdict is "should not invert".
\<close>

theorem C10_empty_buffer:
  "shouldInvert_loop [] 0 (0, 0) = (0, 0) \<and> js_div 0 0 = NaN \<and> shouldInvert [] = False"
proof -
  have loop: "shouldInvert_loop [] 0 (0, 0) = (0, 0)"
    by (subst shouldInvert_loop.simps) simp
  have nan: "js_div 0 0 = NaN"
    by (simp add: js_div_def)
  have "shouldInvert [] = js_gt (js_div 0 0) (ieee_div 6 10)"
    by (simp add: shouldInvert_def loop)
  then have "shouldInvert [] = False"
    by (simp only: nan js_gt.simps)
  with loop nan show ?thesis by simp
qed

end
